theory Spec2Isabelle
  imports Main
begin

section \<open>JsonNode: the array node of package builder\<close>

text \<open>
  \<^verbatim>\<open>Raw()\<close> returns a Go \<^verbatim>\<open>interface{}\<close>: \<^verbatim>\<open>nil\<close>, a bool, a number, a string,
  a slice of such values or a string-keyed map of them. The same type is what a JSON
  parser produces.
\<close>

datatype raw =
    RNil
  | RBool bool
  | RNum int
  | RStr string
  | RArr "raw list"
  | RObj "(string \<times> raw) list"

text \<open>
  \<^verbatim>\<open>Jsonable\<close> is an interface. The repository's array implementation
  (\<^verbatim>\<open>arrayField\<close>) holds a slice of interface values, any of which may be the nil
  interface (\<open>None\<close>). Every other implementation of the interface is kept opaque: a
  node \<open>Opaque e j r\<close> answers \<open>e\<close> to \<^verbatim>\<open>IsEmpty()\<close>, \<open>j\<close> to \<^verbatim>\<open>ToJson()\<close> and
  \<open>r\<close> to \<^verbatim>\<open>Raw()\<close>.
\<close>

datatype jsonable =
    Opaque bool string raw
  | ArrayField "jsonable option list"

text \<open>Modelled from the spec: the Null node of the output tree, which renders as the JSON
  literal \<^verbatim>\<open>null\<close>, has the raw value \<^verbatim>\<open>nil\<close> and is always empty. Its Go
  implementation is not part of the array's source file.\<close>

definition Null :: jsonable where
  "Null = Opaque True ''null'' RNil"

text \<open>\<^verbatim>\<open>func Array(items []Jsonable) *arrayField\<close>\<close>

definition Array :: "jsonable option list \<Rightarrow> jsonable" where
  "Array items = ArrayField items"

text \<open>
  \<^verbatim>\<open>arrayField.IsEmpty\<close>. The loop calls \<^verbatim>\<open>v.IsEmpty()\<close> on every element without
  a nil test, so reaching a nil element is a nil-dereference panic: the result \<open>None\<close>.
  The loop leaves with \<^verbatim>\<open>false\<close> at the first element that is not empty.
\<close>

fun IsEmpty :: "jsonable \<Rightarrow> bool option"
  and IsEmpty_loop :: "jsonable option list \<Rightarrow> bool option" where
  "IsEmpty (Opaque e j r) = Some e"
| "IsEmpty (ArrayField values) =
     (if length values = 0 then Some True else IsEmpty_loop values)"
| "IsEmpty_loop [] = Some True"
| "IsEmpty_loop (None # vs) = None"
| "IsEmpty_loop (Some v # vs) =
     (case IsEmpty v of
        None \<Rightarrow> None
      | Some e \<Rightarrow> if \<not> e then Some False else IsEmpty_loop vs)"

text \<open>
  \<^verbatim>\<open>arrayField.ToJson\<close>. The loop appends each element's rendering, a nil element being
  rendered by \<^verbatim>\<open>Null().ToJson()\<close>, and a comma unless the index is the last one.
  \<open>ToJson_loop n i str items\<close> is the loop at index \<open>i\<close> of a slice of length \<open>n\<close>
  with the string built so far.
\<close>

fun ToJson_loop :: "nat \<Rightarrow> nat \<Rightarrow> string \<Rightarrow> string list \<Rightarrow> string" where
  "ToJson_loop n i str [] = str"
| "ToJson_loop n i str (item # items) =
     ToJson_loop n (i + 1) (str @ item @ (if int i \<noteq> int n - 1 then '','' else [])) items"

function ToJson :: "jsonable \<Rightarrow> string" where
  "ToJson (Opaque e j r) = j"
| "ToJson (ArrayField values) =
     ToJson_loop (length values) 0 ''[''
       (map (\<lambda>item. case item of None \<Rightarrow> ToJson Null | Some v \<Rightarrow> ToJson v) values) @ '']''"
  by pat_completeness auto
termination
proof (relation "measure size")
  fix vs :: "jsonable option list" and x :: "jsonable option" and v :: jsonable
  assume "x \<in> set vs" and "x = Some v"
  then have "size_option size (Some v) \<le> size_list (size_option size) vs"
    using size_list_estimation' [of x vs "size_option size (Some v)" "size_option size"] by simp
  then show "(v, ArrayField vs) \<in> measure size" by simp
qed (simp_all add: Null_def)

text \<open>\<^verbatim>\<open>arrayField.Raw\<close>: a slice of the same length, a nil element giving
  \<^verbatim>\<open>Null().Raw()\<close>.\<close>

function Raw :: "jsonable \<Rightarrow> raw" where
  "Raw (Opaque e j r) = r"
| "Raw (ArrayField values) =
     RArr (map (\<lambda>item. case item of None \<Rightarrow> Raw Null | Some v \<Rightarrow> Raw v) values)"
  by pat_completeness auto
termination
proof (relation "measure size")
  fix vs :: "jsonable option list" and x :: "jsonable option" and v :: jsonable
  assume "x \<in> set vs" and "x = Some v"
  then have "size_option size (Some v) \<le> size_list (size_option size) vs"
    using size_list_estimation' [of x vs "size_option size (Some v)" "size_option size"] by simp
  then show "(v, ArrayField vs) \<in> measure size" by simp
qed (simp_all add: Null_def)


subsection \<open>What a JSON parser makes of a text\<close>

text \<open>
  The JSON parser is a library outside the repository. Its behaviour is given as the
  JSON grammar, read as a relation between a text and the value it denotes:
  \<open>json_parses s v\<close> says that the text \<open>s\<close> is a JSON value that parses to \<open>v\<close>.
  The relation covers the literals, integer numbers, strings with the two-character
  escapes, arrays, objects (members kept in the order of the text) and insignificant
  whitespace around a value.
\<close>

definition json_ws :: "string \<Rightarrow> bool" where
  "json_ws s = list_all (\<lambda>c. c = CHR '' '' \<or> c = CHR 0x09 \<or> c = CHR 0x0A \<or> c = CHR 0x0D) s"

definition json_digit :: "char \<Rightarrow> bool" where
  "json_digit c = (48 \<le> (of_char c :: nat) \<and> (of_char c :: nat) \<le> 57)"

definition json_int_digits :: "string \<Rightarrow> bool" where
  "json_int_digits ds =
     (ds \<noteq> [] \<and> list_all json_digit ds \<and> (length ds = 1 \<or> hd ds \<noteq> CHR ''0''))"

definition digits_value :: "string \<Rightarrow> nat" where
  "digits_value ds = foldl (\<lambda>a c. 10 * a + (of_char c - 48)) 0 ds"

definition json_plain_char :: "char \<Rightarrow> bool" where
  "json_plain_char c = (c \<noteq> CHR 0x22 \<and> c \<noteq> CHR 0x5C \<and> 32 \<le> (of_char c :: nat))"

inductive json_chars :: "string \<Rightarrow> string \<Rightarrow> bool" where
  chars_end: "json_chars [] []"
| chars_plain: "json_plain_char c \<Longrightarrow> json_chars s t \<Longrightarrow> json_chars (c # s) (c # t)"
| chars_quote: "json_chars s t \<Longrightarrow> json_chars (CHR 0x5C # CHR 0x22 # s) (CHR 0x22 # t)"
| chars_backslash: "json_chars s t \<Longrightarrow> json_chars (CHR 0x5C # CHR 0x5C # s) (CHR 0x5C # t)"
| chars_slash: "json_chars s t \<Longrightarrow> json_chars (CHR 0x5C # CHR ''/'' # s) (CHR ''/'' # t)"
| chars_newline: "json_chars s t \<Longrightarrow> json_chars (CHR 0x5C # CHR ''n'' # s) (CHR 0x0A # t)"
| chars_return: "json_chars s t \<Longrightarrow> json_chars (CHR 0x5C # CHR ''r'' # s) (CHR 0x0D # t)"
| chars_tab: "json_chars s t \<Longrightarrow> json_chars (CHR 0x5C # CHR ''t'' # s) (CHR 0x09 # t)"

inductive json_parses :: "string \<Rightarrow> raw \<Rightarrow> bool"
  and json_elements :: "string \<Rightarrow> raw list \<Rightarrow> bool"
  and json_members :: "string \<Rightarrow> (string \<times> raw) list \<Rightarrow> bool" where
  parses_null: "json_parses ''null'' RNil"
| parses_true: "json_parses ''true'' (RBool True)"
| parses_false: "json_parses ''false'' (RBool False)"
| parses_nat: "json_int_digits ds \<Longrightarrow> json_parses ds (RNum (int (digits_value ds)))"
| parses_neg: "json_int_digits ds \<Longrightarrow> json_parses (CHR ''-'' # ds) (RNum (- int (digits_value ds)))"
| parses_string: "json_chars s t \<Longrightarrow> json_parses (CHR 0x22 # s @ [CHR 0x22]) (RStr t)"
| parses_empty_array: "json_ws w \<Longrightarrow> json_parses (''['' @ w @ '']'') (RArr [])"
| parses_array: "json_elements s vs \<Longrightarrow> json_parses (''['' @ s @ '']'') (RArr vs)"
| parses_empty_object: "json_ws w \<Longrightarrow> json_parses (''{'' @ w @ ''}'') (RObj [])"
| parses_object: "json_members s kvs \<Longrightarrow> json_parses (''{'' @ s @ ''}'') (RObj kvs)"
| parses_ws: "json_parses s v \<Longrightarrow> json_ws a \<Longrightarrow> json_ws b \<Longrightarrow> json_parses (a @ s @ b) v"
| elements_one: "json_parses s v \<Longrightarrow> json_elements s [v]"
| elements_more: "json_parses s v \<Longrightarrow> json_elements t vs \<Longrightarrow>
     json_elements (s @ '','' @ t) (v # vs)"
| members_one: "json_parses ks (RStr k) \<Longrightarrow> json_parses s v \<Longrightarrow>
     json_members (ks @ '':'' @ s) [(k, v)]"
| members_more: "json_parses ks (RStr k) \<Longrightarrow> json_parses s v \<Longrightarrow> json_members t kvs \<Longrightarrow>
     json_members (ks @ '':'' @ s @ '','' @ t) ((k, v) # kvs)"


text \<open>Elements separated by commas, as the loop of \<^verbatim>\<open>ToJson\<close> lays them out.\<close>

fun commas :: "string list \<Rightarrow> string" where
  "commas [] = []"
| "commas [x] = x"
| "commas (x # y # ys) = x @ '','' @ commas (y # ys)"


text \<open>
  \<open>reparses n\<close>: every node of the tree \<open>n\<close> that is not an array renders to a text that
  parses to its own raw value (the property of the claim, required of the children).
\<close>

fun reparses :: "jsonable \<Rightarrow> bool" where
  "reparses (Opaque e j r) = json_parses j r"
| "reparses (ArrayField values) =
     list_all (\<lambda>item. case item of None \<Rightarrow> True | Some v \<Rightarrow> reparses v) values"


text \<open>
  \<open>has_nil n\<close>: the tree holds a nil element somewhere. \<open>all_empty n\<close>: the emptiness
  the data model asks for, a nil element counting as the Null node, which is empty.
\<close>

fun has_nil :: "jsonable \<Rightarrow> bool" where
  "has_nil (Opaque e j r) = False"
| "has_nil (ArrayField values) =
     list_ex (\<lambda>item. case item of None \<Rightarrow> True | Some v \<Rightarrow> has_nil v) values"

fun all_empty :: "jsonable \<Rightarrow> bool" where
  "all_empty (Opaque e j r) = e"
| "all_empty (ArrayField values) =
     list_all (\<lambda>item. case item of None \<Rightarrow> True | Some v \<Rightarrow> all_empty v) values"

section \<open>Shared runtime: errors, contexts, semaphores, process state\<close>

datatype error =
    errEmpty
  | errNoDriver
  | DeadlineExceeded
  | Failure string

text \<open>
  A Go context is the background context or a parent with a timeout (seconds).
  \<open>ctx_deadline\<close> is the time after which the context is done, \<open>None\<close> when it is
  never done.
\<close>

datatype "context" = Background | WithTimeout "context" nat

fun ctx_deadline :: "context \<Rightarrow> nat option" where
  "ctx_deadline Background = None"
| "ctx_deadline (WithTimeout parent d) =
     (case ctx_deadline parent of None \<Rightarrow> Some d | Some p \<Rightarrow> Some (min p d))"

text \<open>
  \<^verbatim>\<open>const timeout = 60 * time.Second\<close>, \<^verbatim>\<open>defaultConcurrentWorker = 1000\<close> and the
  package variable \<^verbatim>\<open>ctx = context.Background()\<close>.
\<close>

definition timeout :: nat where
  "timeout = 60"

definition defaultConcurrentWorker :: nat where
  "defaultConcurrentWorker = 1000"

definition ctx :: "context" where
  "ctx = Background"

text \<open>
  \<^verbatim>\<open>init()\<close>: the capacity of the global semaphore \<^verbatim>\<open>sem\<close>. The argument is the
  result of parsing the environment variable \<^verbatim>\<open>FITTER_HTTP_WORKER\<close> as a 32-bit
  integer: \<open>None\<close> when the variable is unset or does not parse.
\<close>

definition init :: "int option \<Rightarrow> int" where
  "init parsed =
     (case parsed of
        Some intValue \<Rightarrow> if intValue > 0 then intValue else int defaultConcurrentWorker
      | None \<Rightarrow> int defaultConcurrentWorker)"

text \<open>The bounded pools of the program: the global semaphore \<^verbatim>\<open>sem\<close>, the limiter of a
  host, the limiter of browser instances and \<^verbatim>\<open>installPlaywrightSem\<close>.\<close>

datatype pool = GlobalPool | HostPool string | InstancePool | InstallLock

text \<open>
  \<^verbatim>\<open>(*semaphore.Weighted).Acquire(ctx, 1)\<close> of the library
  \<^verbatim>\<open>golang.org/x/sync/semaphore\<close>, by its documented contract: it blocks until a
  slot is available or the context is done; it returns nil on success and the context's
  error otherwise. The second argument is the environment: the time after which a slot is
  free for this caller (\<open>Some 0\<close> at once, \<open>None\<close> never). \<open>Blocked\<close> is the call
  that never returns.
\<close>

datatype acquired = Granted | Refused error | Blocked

definition sem_Acquire :: "context \<Rightarrow> nat option \<Rightarrow> acquired" where
  "sem_Acquire c free_after =
     (case ctx_deadline c of
        None \<Rightarrow> (case free_after of None \<Rightarrow> Blocked | Some t \<Rightarrow> Granted)
      | Some d \<Rightarrow>
          (case free_after of
             None \<Rightarrow> Refused DeadlineExceeded
           | Some t \<Rightarrow> if t < d then Granted else Refused DeadlineExceeded))"

text \<open>
  HTTP clients are pointers (\<^verbatim>\<open>*http.Client\<close>); the heap holds the \<^verbatim>\<open>Transport\<close>
  field of each. A transport is either the one the client was built with or the proxy
  transport \<^verbatim>\<open>&http.Transport{Proxy: http.ProxyURL(proxyUrl)}\<close>.
\<close>

type_synonym client_ref = nat

datatype userinfo = User string | UserPassword string string

record URL =
  url_text :: string
  url_User :: "userinfo option"

datatype transport = BuiltIn | ProxyTransport URL

text \<open>
  \<^verbatim>\<open>http.Header\<close> is a map from a header name to the list of its values. It is kept as
  the list of its entries, each name once, in the order the names were first added; that
  order has no meaning, and a header is read by \<open>Header_Values\<close> (\<^verbatim>\<open>h[key]\<close>, the empty
  list for a name that is not there).
\<close>

type_synonym Header = "(string \<times> string list) list"


text \<open>\<^verbatim>\<open>h[key] = append(h[key], value)\<close>.\<close>

fun append_value :: "string \<Rightarrow> string \<Rightarrow> Header \<Rightarrow> Header" where
  "append_value key v [] = [(key, [v])]"
| "append_value key v ((k, vs) # h) =
     (if k = key then (k, vs @ [v]) # h else (k, vs) # append_value key v h)"

record request =
  req_Method :: string
  req_URL :: string
  req_Host :: string
  req_Header :: Header
  req_Body :: string

record response =
  resp_Header :: Header
  resp_Body :: "error + string"

text \<open>What a call does to the outside, in the order it does it.\<close>

datatype event =
    Acquire pool
  | Release pool
  | NewRequest string string string
  | Do client_ref request transport "context"
  | BodyClose
  | Cancel "context"
  | PwInstall "error option"
  | PwRun
  | PwStop
  | PwLaunch string "(string \<times> string option \<times> string option) option"
  | PwBrowserClose
  | PwNewPage
  | PwStealthInject
  | PwAddInitScript
  | PwPageClose
  | PwGoto string nat "string option"
  | PwEvaluate string
  | PwContent

text \<open>The state of the process: the transports of the HTTP clients, the flag
  \<^verbatim>\<open>installedPlaywright\<close> and the log of events.\<close>

record state =
  transports :: "client_ref \<Rightarrow> transport"
  installedPlaywright :: bool
  trace :: "event list"

definition emit :: "event \<Rightarrow> state \<Rightarrow> state" where
  "emit e st = st\<lparr>trace := trace st @ [e]\<rparr>"

section \<open>The HTTP connector\<close>

record ProxyConfig =
  Server :: string
  Username :: string
  Password :: string

text \<open>
  The configuration of a connector. \<^verbatim>\<open>Headers\<close> is a Go map from names to values; the
  field holds its entries in the order the \<^verbatim>\<open>range\<close> statement of the call visits them,
  an order Go leaves open.
\<close>

record ServerConnectorConfig =
  Method :: string
  Headers :: "(string \<times> string) list"
  Timeout :: nat
  Body :: string
  JsonRawBody :: "string option"
  Proxy :: "ProxyConfig option"

record apiConnector =
  url :: string
  client :: "client_ref option"
  cfg :: ServerConnectorConfig

text \<open>
  What a call of \<^verbatim>\<open>get\<close> takes from outside the source file:
  \<^item> \<open>Format\<close>: \<^verbatim>\<open>utils.Format(s, parsedValue, index, input)\<close> at the scope of the call;
  \<^item> \<open>free_after\<close>: when each pool has a slot for this call (see \<open>sem_Acquire\<close>);
  \<^item> \<open>request_error\<close>, \<open>host_of\<close>: whether \<^verbatim>\<open>http.NewRequest\<close> rejects a method and
    URL, and the host of the request it builds;
  \<^item> \<open>CanonicalHeaderKey\<close>: \<^verbatim>\<open>textproto.CanonicalMIMEHeaderKey\<close>, the spelling under
    which \<^verbatim>\<open>Header.Add\<close> files a name;
  \<^item> \<open>GetDefaultClient\<close>: the pointer \<^verbatim>\<open>http_client.GetDefaultClient()\<close> returns, the
    package's one default client;
  \<^item> \<open>url_Parse\<close>: \<^verbatim>\<open>url.Parse\<close>;
  \<^item> \<open>HostLimiter\<close>, \<open>PlaywrightLimiter\<close>: whether \<^verbatim>\<open>limitter.HostLimiter(host)\<close> and
    \<^verbatim>\<open>limitter.PlaywrightLimiter()\<close> return a semaphore (\<open>False\<close> for nil);
  \<^item> \<open>client_Do\<close>: \<^verbatim>\<open>client.Do\<close> followed by \<^verbatim>\<open>io.ReadAll\<close> of the body.
\<close>

record world =
  Format :: "string \<Rightarrow> string"
  free_after :: "pool \<Rightarrow> nat option"
  request_error :: "string \<Rightarrow> string \<Rightarrow> error option"
  host_of :: "string \<Rightarrow> string"
  CanonicalHeaderKey :: "string \<Rightarrow> string"
  GetDefaultClient :: client_ref
  url_Parse :: "string \<Rightarrow> error + URL"
  HostLimiter :: "string \<Rightarrow> bool"
  PlaywrightLimiter :: bool
  client_Do :: "request \<Rightarrow> transport \<Rightarrow> context \<Rightarrow> error + response"

text \<open>The three results of \<^verbatim>\<open>get\<close>: headers, body, error, each possibly nil.\<close>

type_synonym reply = "Header option \<times> string option \<times> error option"

text \<open>\<^verbatim>\<open>http.NewRequest(method, url, body)\<close>: an error, or a request with the URL and the
  body, no header yet, and the method, \<^verbatim>\<open>GET\<close> standing for the empty method.\<close>

definition http_NewRequest :: "world \<Rightarrow> string \<Rightarrow> string \<Rightarrow> string \<Rightarrow> error + request" where
  "http_NewRequest w method u body =
     (case request_error w method u of
        Some e \<Rightarrow> Inl e
      | None \<Rightarrow>
          Inr \<lparr>req_Method = (if method = '''' then ''GET'' else method), req_URL = u,
               req_Host = host_of w u, req_Header = [], req_Body = body\<rparr>)"

text \<open>\<^verbatim>\<open>req.Header.Add(key, value)\<close>: the value is appended to the values of the
  canonical spelling of the name.\<close>

definition Header_Add :: "world \<Rightarrow> string \<Rightarrow> string \<Rightarrow> Header \<Rightarrow> Header" where
  "Header_Add w key v h = append_value (CanonicalHeaderKey w key) v h"

text \<open>The loop \<^verbatim>\<open>for k, v := range api.cfg.Headers\<close>: each name and each value is expanded
  and added to the header.\<close>

fun add_headers :: "world \<Rightarrow> (string \<times> string) list \<Rightarrow> Header \<Rightarrow> Header" where
  "add_headers w [] h = h"
| "add_headers w ((k, v) # rest) h =
     add_headers w rest (Header_Add w (Format w k) (Format w v) h)"

text \<open>The credentials of the proxy: \<^verbatim>\<open>proxyUrl.User\<close> is set when the user name of the
  configuration is not empty, with the password when that is not empty either.\<close>

definition with_credentials :: "world \<Rightarrow> ProxyConfig \<Rightarrow> URL \<Rightarrow> URL" where
  "with_credentials w p proxyUrl =
     (if Username p \<noteq> ''''
      then (if Password p \<noteq> ''''
            then proxyUrl\<lparr>url_User :=
                   Some (UserPassword (Format w (Username p)) (Format w (Password p)))\<rparr>
            else proxyUrl\<lparr>url_User := Some (User (Format w (Username p)))\<rparr>)
      else proxyUrl)"

text \<open>
  The proxy block of \<^verbatim>\<open>get\<close> (\<^verbatim>\<open>if api.cfg.Proxy != nil\<close>). \<open>err\<close> is the variable
  \<^verbatim>\<open>err\<close> of \<^verbatim>\<open>get\<close> at this point. \<open>Inl\<close> is the early return of the block
  (\<^verbatim>\<open>return nil, nil, err\<close>), \<open>Inr\<close> the state it falls through with, the
  \<^verbatim>\<open>Transport\<close> of the client assigned.
\<close>

definition set_proxy ::
  "world \<Rightarrow> apiConnector \<Rightarrow> client_ref \<Rightarrow> error option \<Rightarrow> state \<Rightarrow> reply + state" where
  "set_proxy w api c err st =
     (case Proxy (cfg api) of
        None \<Rightarrow> Inr st
      | Some p \<Rightarrow>
          (case url_Parse w (Format w (Server p)) of
             Inl errProxy \<Rightarrow> Inl (None, None, err)
           | Inr proxyUrl \<Rightarrow>
               Inr (st\<lparr>transports :=
                        (transports st)(c := ProxyTransport (with_credentials w p proxyUrl))\<rparr>)))"

text \<open>
  The end of \<^verbatim>\<open>get\<close>, from the choice of the request's deadline: the request is sent
  under \<^verbatim>\<open>context.WithTimeout(ctx, tt)\<close> and the body read. The deferred
  \<^verbatim>\<open>resp.Body.Close()\<close> and \<^verbatim>\<open>cancel()\<close> run when the function leaves.
\<close>

definition request_ctx :: "apiConnector \<Rightarrow> context" where
  "request_ctx api =
     WithTimeout ctx (if Timeout (cfg api) > 0 then Timeout (cfg api) else timeout)"

definition send :: "world \<Rightarrow> apiConnector \<Rightarrow> request \<Rightarrow> client_ref \<Rightarrow> state \<Rightarrow> reply \<times> state" where
  "send w api req c st =
     (let reqCtx = request_ctx api;
          st1 = emit (Do c req (transports st c) reqCtx) st
      in case client_Do w req (transports st c) reqCtx of
           Inl e \<Rightarrow> ((None, None, Some e), emit (Cancel reqCtx) st1)
         | Inr resp \<Rightarrow>
             (case resp_Body resp of
                Inl e \<Rightarrow> ((None, None, Some e), emit (Cancel reqCtx) (emit BodyClose st1))
              | Inr bytes \<Rightarrow>
                  ((Some (resp_Header resp), Some bytes, None),
                   emit (Cancel reqCtx) (emit BodyClose st1))))"

text \<open>The client of the request: \<^verbatim>\<open>http_client.GetDefaultClient()\<close>, or the client of
  the connector when it has one.\<close>

definition chosen_client :: "world \<Rightarrow> apiConnector \<Rightarrow> client_ref" where
  "chosen_client w api = (case client api of None \<Rightarrow> GetDefaultClient w | Some c' \<Rightarrow> c')"

text \<open>
  \<^verbatim>\<open>get\<close> once the global slot is held: the request is built, its headers added, the
  client chosen, the proxy set, the host's slot acquired (when the host has a limiter) and
  released when the function leaves. \<open>None\<close>: the call never returns.
\<close>

definition get_held ::
  "world \<Rightarrow> apiConnector \<Rightarrow> string \<Rightarrow> string \<Rightarrow> state \<Rightarrow> (reply \<times> state) option" where
  "get_held w api formattedURL formattedBody st =
     (let st1 = emit (NewRequest (Method (cfg api)) formattedURL formattedBody) st
      in case http_NewRequest w (Method (cfg api)) formattedURL formattedBody of
           Inl err \<Rightarrow> Some ((None, None, Some err), st1)
         | Inr req0 \<Rightarrow>
             (let err = None;
                  req = req0\<lparr>req_Header :=
                          add_headers w (Headers (cfg api)) (req_Header req0)\<rparr>;
                  c = chosen_client w api
              in case set_proxy w api c err st1 of
                   Inl r \<Rightarrow> Some (r, st1)
                 | Inr st2 \<Rightarrow>
                     (if \<not> HostLimiter w (req_Host req) then Some (send w api req c st2)
                      else (let hostLimit = HostPool (req_Host req)
                            in case sem_Acquire ctx (free_after w hostLimit) of
                                 Blocked \<Rightarrow> None
                               | Refused errHostLimit \<Rightarrow>
                                   Some ((None, None, Some errHostLimit), st2)
                               | Granted \<Rightarrow>
                                   (case send w api req c (emit (Acquire hostLimit) st2) of
                                      (r, st3) \<Rightarrow> Some (r, emit (Release hostLimit) st3))))))"

text \<open>The variable \<^verbatim>\<open>formattedBody\<close>: the expanded \<^verbatim>\<open>Body\<close>, replaced by the expanded
  \<^verbatim>\<open>JsonRawBody\<close> when that is neither nil nor empty.\<close>

definition formatted_body :: "world \<Rightarrow> apiConnector \<Rightarrow> string" where
  "formatted_body w api =
     (case JsonRawBody (cfg api) of
        None \<Rightarrow> Format w (Body (cfg api))
      | Some rawBody \<Rightarrow>
          if length rawBody > 0 then Format w rawBody else Format w (Body (cfg api)))"

text \<open>\<^verbatim>\<open>apiConnector.get\<close>.\<close>

definition get :: "world \<Rightarrow> apiConnector \<Rightarrow> state \<Rightarrow> (reply \<times> state) option" where
  "get w api st =
     (let formattedBody = formatted_body w api;
          formattedURL = Format w (url api)
      in if formattedURL = '''' then Some ((None, None, Some errEmpty), st)
         else (case sem_Acquire ctx (free_after w GlobalPool) of
                 Blocked \<Rightarrow> None
               | Refused err \<Rightarrow> Some ((None, None, Some err), st)
               | Granted \<Rightarrow>
                   (case get_held w api formattedURL formattedBody (emit (Acquire GlobalPool) st) of
                      None \<Rightarrow> None
                    | Some (r, st') \<Rightarrow> Some (r, emit (Release GlobalPool) st'))))"

text \<open>\<^verbatim>\<open>GetWithHeaders\<close> and \<^verbatim>\<open>Get\<close>.\<close>

definition GetWithHeaders :: "world \<Rightarrow> apiConnector \<Rightarrow> state \<Rightarrow> (reply \<times> state) option" where
  "GetWithHeaders w api st = get w api st"

definition Get ::
  "world \<Rightarrow> apiConnector \<Rightarrow> state \<Rightarrow> ((string option \<times> error option) \<times> state) option" where
  "Get w api st =
     (case get w api st of
        None \<Rightarrow> None
      | Some ((hdr, body, err), st') \<Rightarrow> Some ((body, err), st'))"

subsection \<open>Reading the log of a call\<close>

text \<open>The events a call added to the log: those of the state after it that were not in
  the state before it.\<close>

definition emitted :: "state \<Rightarrow> state \<Rightarrow> event list" where
  "emitted st st' = drop (length (trace st)) (trace st')"

text \<open>
  \<open>governed lim held evs\<close> checks the pool discipline on a log, \<open>held\<close> being the
  slots held before it: a slot is acquired only when it is not held, and a host slot only
  when the global slot is held; a request is sent only when the global slot is held and,
  if the host of the request has a limiter (\<open>lim\<close>), the slot of that host too; only a
  held slot is released; at the end no slot is held.
\<close>

fun governed :: "(string \<Rightarrow> bool) \<Rightarrow> pool list \<Rightarrow> event list \<Rightarrow> bool" where
  "governed lim held [] = (held = [])"
| "governed lim held (Acquire p # evs) =
     (p \<notin> set held
      \<and> (case p of HostPool h \<Rightarrow> GlobalPool \<in> set held | _ \<Rightarrow> True)
      \<and> governed lim (p # held) evs)"
| "governed lim held (Release p # evs) =
     (p \<in> set held \<and> governed lim (remove1 p held) evs)"
| "governed lim held (Do c req tr cx # evs) =
     (GlobalPool \<in> set held
      \<and> (if lim (req_Host req) then HostPool (req_Host req) \<in> set held else True)
      \<and> governed lim held evs)"
| "governed lim held (e # evs) = governed lim held evs"

text \<open>The events that neither take nor give a slot nor send a request.\<close>

fun neutral :: "event \<Rightarrow> bool" where
  "neutral (Acquire p) = False"
| "neutral (Release p) = False"
| "neutral (Do c req tr cx) = False"
| "neutral e = True"

text \<open>The request \<^verbatim>\<open>get\<close> hands to the client, from the expanded URL and body.\<close>

definition built_request :: "world \<Rightarrow> apiConnector \<Rightarrow> string \<Rightarrow> string \<Rightarrow> request" where
  "built_request w api fu fb =
     \<lparr>req_Method = (if Method (cfg api) = '''' then ''GET'' else Method (cfg api)),
      req_URL = fu, req_Host = host_of w fu,
      req_Header = add_headers w (Headers (cfg api)) [],
      req_Body = fb\<rparr>"

section \<open>The browser connector\<close>

datatype Browser = Chromium | FireFox | WebKit | UnknownBrowser string

record PlaywrightConfig =
  Install :: bool
  Browser :: Browser
  Stealth :: bool
  PwTimeout :: nat
  Wait :: nat
  TypeOfWait :: "string option"
  PreRunScript :: string
  PwProxy :: "ProxyConfig option"

text \<open>
  The browser-automation runtime is outside the repository. A call of
  \<^verbatim>\<open>getFromPlaywright\<close> takes from it the outcome of each step (\<open>None\<close> is a nil
  error) and \<open>deadline_at\<close>, which case the \<^verbatim>\<open>select\<close> takes: \<open>None\<close> when it is
  \<^verbatim>\<open><-res\<close>, the background function having closed the channel; \<open>Some n\<close> when it is
  \<^verbatim>\<open><-ctxT.Done()\<close>, the background function having done \<open>n\<close> of its events by then.
\<close>

record playwright =
  Install_error :: "error option"
  Run_error :: "error option"
  Launch_error :: "Browser \<Rightarrow> error option"
  NewPage_error :: "error option"
  Inject_error :: "error option"
  AddInitScript_error :: "error option"
  Goto_error :: "string \<Rightarrow> error option"
  Evaluate_error :: "string \<Rightarrow> error option"
  Content_result :: "error + string"
  deadline_at :: "nat option"

text \<open>
  The function literal run under the install lock. It assigns the variable \<^verbatim>\<open>err\<close> of
  \<^verbatim>\<open>getFromPlaywright\<close>, whose value is the first component of the result. The lock
  is released when the literal leaves. The event \<open>PwInstall\<close> carries what
  \<^verbatim>\<open>playwright.Install\<close> returned.
\<close>

definition install_locked :: "playwright \<Rightarrow> error option \<Rightarrow> state \<Rightarrow> error option \<times> state" where
  "install_locked pw err st =
     (if installedPlaywright st then (err, emit (Release InstallLock) st)
      else (let st1 = emit (PwInstall (Install_error pw)) st
            in case Install_error pw of
                 Some e \<Rightarrow> (Some e, emit (Release InstallLock) st1)
               | None \<Rightarrow>
                   (None, emit (Release InstallLock) (st1\<lparr>installedPlaywright := True\<rparr>))))"

text \<open>
  \<^verbatim>\<open>if cfg.Install { ... }\<close>. The result is \<open>None\<close> when the acquire never returns;
  otherwise whether the background function goes on, the value of \<^verbatim>\<open>err\<close>, and the state.
\<close>

definition install_step ::
  "world \<Rightarrow> playwright \<Rightarrow> PlaywrightConfig \<Rightarrow> context \<Rightarrow> error option \<Rightarrow> state \<Rightarrow>
     (bool \<times> error option \<times> state) option" where
  "install_step w pw conf ctxT err st =
     (if Install conf
      then (case sem_Acquire ctxT (free_after w InstallLock) of
              Blocked \<Rightarrow> None
            | Refused e \<Rightarrow> Some (False, Some e, st)
            | Granted \<Rightarrow>
                (case install_locked pw None (emit (Acquire InstallLock) st) of
                   (err', st') \<Rightarrow> Some (True, err', st')))
      else Some (True, err, st))"

text \<open>The launch options: the proxy, its fields expanded when they are not empty.\<close>

definition launch_options ::
  "world \<Rightarrow> PlaywrightConfig \<Rightarrow> (string \<times> string option \<times> string option) option" where
  "launch_options w conf =
     (case PwProxy conf of
        None \<Rightarrow> None
      | Some p \<Rightarrow>
          Some (if Server p \<noteq> '''' then Format w (Server p) else '''',
                if Username p \<noteq> '''' then Some (Format w (Username p)) else None,
                if Password p \<noteq> '''' then Some (Format w (Password p)) else None))"

text \<open>
  From \<^verbatim>\<open>page.Goto\<close> to \<^verbatim>\<open>page.Content()\<close>. The result is the variable
  \<^verbatim>\<open>content\<close> and the \<^verbatim>\<open>err\<close> these statements assign.
\<close>

definition goto_steps ::
  "world \<Rightarrow> playwright \<Rightarrow> PlaywrightConfig \<Rightarrow> string \<Rightarrow> state \<Rightarrow> (string \<times> error option) \<times> state" where
  "goto_steps w pw conf u st =
     (let tt = (if Wait conf > 0 then Wait conf else timeout);
          st1 = emit (PwGoto u (tt * 1000) (TypeOfWait conf)) st
      in case Goto_error pw u of
           Some e \<Rightarrow> (('''', Some e), st1)
         | None \<Rightarrow>
             (let script = Format w (PreRunScript conf);
                  ran = (if PreRunScript conf \<noteq> '''' then Evaluate_error pw script else None);
                  st2 = (if PreRunScript conf \<noteq> '''' then emit (PwEvaluate script) st1 else st1)
              in case ran of
                   Some e \<Rightarrow> (('''', Some e), st2)
                 | None \<Rightarrow>
                     (case Content_result pw of
                        Inl e \<Rightarrow> (('''', Some e), emit PwContent st2)
                      | Inr markup \<Rightarrow> ((markup, None), emit PwContent st2))))"

text \<open>From \<^verbatim>\<open>browserInstance.NewPage()\<close> on. The deferred \<^verbatim>\<open>page.Close()\<close> is
  registered after the stealth injection.\<close>

definition page_steps ::
  "world \<Rightarrow> playwright \<Rightarrow> PlaywrightConfig \<Rightarrow> string \<Rightarrow> state \<Rightarrow> (string \<times> error option) \<times> state" where
  "page_steps w pw conf u st =
     (let st1 = emit PwNewPage st
      in case NewPage_error pw of
           Some e \<Rightarrow> (('''', Some e), st1)
         | None \<Rightarrow>
             (if Stealth conf
              then (case Inject_error pw of
                      Some e \<Rightarrow> (('''', Some e), emit PwStealthInject st1)
                    | None \<Rightarrow>
                        (case AddInitScript_error pw of
                           Some e \<Rightarrow>
                             (('''', Some e), emit PwAddInitScript (emit PwStealthInject st1))
                         | None \<Rightarrow>
                             (case goto_steps w pw conf u
                                     (emit PwAddInitScript (emit PwStealthInject st1)) of
                                (r, st2) \<Rightarrow> (r, emit PwPageClose st2))))
              else (case goto_steps w pw conf u st1 of
                      (r, st2) \<Rightarrow> (r, emit PwPageClose st2))))"

text \<open>From the launch options to the end of the background function. An engine that is
  none of the three leaves \<^verbatim>\<open>browserInstance\<close> nil.\<close>

definition browser_steps ::
  "world \<Rightarrow> playwright \<Rightarrow> PlaywrightConfig \<Rightarrow> string \<Rightarrow> state \<Rightarrow> (string \<times> error option) \<times> state" where
  "browser_steps w pw conf u st =
     (let opts = launch_options w conf;
          known = (Browser conf = Chromium \<or> Browser conf = FireFox \<or> Browser conf = WebKit);
          engine = (if Browser conf = Chromium then ''Chromium''
                    else if Browser conf = FireFox then ''Firefox'' else ''WebKit'');
          st1 = (if known then emit (PwLaunch engine opts) st else st)
      in if known
         then (case Launch_error pw (Browser conf) of
                 Some e \<Rightarrow> (('''', Some e), st1)
               | None \<Rightarrow>
                   (case page_steps w pw conf u st1 of
                      (r, st2) \<Rightarrow> (r, emit PwBrowserClose st2)))
         else (('''', Some errNoDriver), st1))"

text \<open>
  The background function (\<^verbatim>\<open>go func() { ... }()\<close>). The result is what it leaves in the
  variables \<^verbatim>\<open>content\<close> and \<^verbatim>\<open>err\<close> of \<^verbatim>\<open>getFromPlaywright\<close> when it closes
  \<^verbatim>\<open>res\<close>. The statement \<^verbatim>\<open>pw, err := playwright.Run(...)\<close> declares a new \<^verbatim>\<open>err\<close>
  in the block of the function literal; every later assignment to \<^verbatim>\<open>err\<close> in the literal
  is to that variable, so the outer \<^verbatim>\<open>err\<close> keeps the value the install step gave it.
\<close>

definition background ::
  "world \<Rightarrow> playwright \<Rightarrow> PlaywrightConfig \<Rightarrow> string \<Rightarrow> context \<Rightarrow> state \<Rightarrow>
     ((string \<times> error option) \<times> state) option" where
  "background w pw conf u ctxT st =
     (case install_step w pw conf ctxT None st of
        None \<Rightarrow> None
      | Some (goes_on, err, st1) \<Rightarrow>
          if \<not> goes_on then Some (('''', err), st1)
          else (case Run_error pw of
                  Some e \<Rightarrow> Some (('''', err), emit PwRun st1)
                | None \<Rightarrow>
                    (case browser_steps w pw conf u (emit PwRun st1) of
                       ((content, err_local), st2) \<Rightarrow> Some ((content, err), emit PwStop st2))))"

text \<open>
  The deadline and the \<^verbatim>\<open>select\<close>: the result is \<^verbatim>\<open>[]byte(content), err\<close> when the
  background function has closed \<^verbatim>\<open>res\<close>, and \<^verbatim>\<open>nil, ctxT.Err()\<close> when the deadline
  is taken. The deadline does not stop the background function: the events it had done
  by then are in the log before those of the return, and the third component holds the
  events it does afterwards. The flag of the state is the one it leaves.
\<close>

definition race ::
  "world \<Rightarrow> playwright \<Rightarrow> string \<Rightarrow> PlaywrightConfig \<Rightarrow> state \<Rightarrow>
     (string option \<times> error option) \<times> state \<times> event list" where
  "race w pw u conf st =
     (let t = (if PwTimeout conf > 0 then PwTimeout conf else timeout);
          ctxT = WithTimeout Background t
      in case background w pw conf u ctxT st of
           None \<Rightarrow> ((None, Some DeadlineExceeded), emit (Cancel ctxT) st, [])
         | Some ((content, err), st') \<Rightarrow>
             (case deadline_at pw of
                None \<Rightarrow> ((Some content, err), emit (Cancel ctxT) st', [])
              | Some n \<Rightarrow>
                  ((None, Some DeadlineExceeded),
                   emit (Cancel ctxT)
                     (st'\<lparr>trace := trace st @ take n (emitted st st')\<rparr>),
                   drop n (emitted st st'))))"

text \<open>The events the background function does after the call has returned.\<close>

definition afterwards :: "event list \<Rightarrow> state \<Rightarrow> state" where
  "afterwards late st = st\<lparr>trace := trace st @ late\<rparr>"

text \<open>\<^verbatim>\<open>getFromPlaywright\<close> (with the install lock, the proxy and the script). The state
  is that of the process once the background function has ended.\<close>

definition getFromPlaywright ::
  "world \<Rightarrow> playwright \<Rightarrow> string \<Rightarrow> PlaywrightConfig \<Rightarrow> state \<Rightarrow>
     ((string option \<times> error option) \<times> state) option" where
  "getFromPlaywright w pw u conf st =
     (if PlaywrightLimiter w
      then (case sem_Acquire ctx (free_after w InstancePool) of
              Blocked \<Rightarrow> None
            | Refused errInstance \<Rightarrow> Some ((None, Some errInstance), st)
            | Granted \<Rightarrow>
                (case race w pw u conf (emit (Acquire InstancePool) st) of
                   (r, st', late) \<Rightarrow>
                     Some (r, afterwards late (emit (Release InstancePool) st'))))
      else (case race w pw u conf st of
              (r, st', late) \<Rightarrow> Some (r, afterwards late st')))"

subsection \<open>The variant in \<^verbatim>\<open>pkg/connectors/playwright.go\<close>\<close>

text \<open>
  The file \<^verbatim>\<open>pkg/connectors/playwright.go\<close> holds a variant of the same function with
  no install lock, proxy, stealth or script; its \<^verbatim>\<open>select\<close> returns
  \<^verbatim>\<open>[]byte(content), nil\<close>.
\<close>

definition page_steps_go ::
  "playwright \<Rightarrow> PlaywrightConfig \<Rightarrow> string \<Rightarrow> state \<Rightarrow> (string \<times> error option) \<times> state" where
  "page_steps_go pw conf u st =
     (let st1 = emit PwNewPage st
      in case NewPage_error pw of
           Some e \<Rightarrow> (('''', Some e), st1)
         | None \<Rightarrow>
             (let tt = (if Wait conf > 0 then Wait conf else timeout);
                  st2 = emit (PwGoto u (tt * 1000) (TypeOfWait conf)) st1
              in case Goto_error pw u of
                   Some e \<Rightarrow> (('''', Some e), emit PwPageClose st2)
                 | None \<Rightarrow>
                     (case Content_result pw of
                        Inl e \<Rightarrow> (('''', Some e), emit PwPageClose (emit PwContent st2))
                      | Inr markup \<Rightarrow>
                          ((markup, None), emit PwPageClose (emit PwContent st2)))))"

definition background_go ::
  "playwright \<Rightarrow> PlaywrightConfig \<Rightarrow> string \<Rightarrow> state \<Rightarrow> (string \<times> error option) \<times> state" where
  "background_go pw conf u st =
     (let installs = Install conf;
          st0 = (if installs then emit (PwInstall (Install_error pw)) st else st);
          err = (if installs then Install_error pw else None)
      in if err \<noteq> None then (('''', err), st0)
         else (case Run_error pw of
                 Some e \<Rightarrow> (('''', err), emit PwRun st0)
               | None \<Rightarrow>
                   (let known = (Browser conf = Chromium \<or> Browser conf = FireFox
                                  \<or> Browser conf = WebKit);
                        engine = (if Browser conf = Chromium then ''Chromium''
                                  else if Browser conf = FireFox then ''Firefox'' else ''WebKit'');
                        st1 = (if known then emit (PwLaunch engine None) (emit PwRun st0)
                               else emit PwRun st0)
                    in if \<not> known then (('''', err), emit PwStop st1)
                       else (case Launch_error pw (Browser conf) of
                               Some e \<Rightarrow> (('''', err), emit PwStop st1)
                             | None \<Rightarrow>
                                 (case page_steps_go pw conf u st1 of
                                    ((content, err_local), st2) \<Rightarrow>
                                      ((content, err),
                                       emit PwStop (emit PwBrowserClose st2)))))))"

definition getFromPlaywright_go ::
  "world \<Rightarrow> playwright \<Rightarrow> string \<Rightarrow> PlaywrightConfig \<Rightarrow> state \<Rightarrow>
     ((string option \<times> error option) \<times> state) option" where
  "getFromPlaywright_go w pw u conf st =
     (let t = (if PwTimeout conf > 0 then PwTimeout conf else timeout);
          ctxT = WithTimeout Background t;
          select = (\<lambda>st0. case background_go pw conf u st0 of
                      ((content, err), st') \<Rightarrow>
                        (case deadline_at pw of
                           None \<Rightarrow> ((Some content, None), emit (Cancel ctxT) st', [])
                         | Some n \<Rightarrow>
                             ((None, Some DeadlineExceeded),
                              emit (Cancel ctxT)
                                (st'\<lparr>trace := trace st0 @ take n (emitted st0 st')\<rparr>),
                              drop n (emitted st0 st'))))
      in if PlaywrightLimiter w
         then (case sem_Acquire ctx (free_after w InstancePool) of
                 Blocked \<Rightarrow> None
               | Refused errInstance \<Rightarrow> Some ((None, Some errInstance), st)
               | Granted \<Rightarrow>
                   (case select (emit (Acquire InstancePool) st) of
                      (r, st', late) \<Rightarrow>
                        Some (r, afterwards late (emit (Release InstancePool) st'))))
         else (case select st of
                 (r, st', late) \<Rightarrow> Some (r, afterwards late st')))"

subsection \<open>The install section under concurrent callers\<close>

text \<open>
  Calls of \<^verbatim>\<open>getFromPlaywright\<close> run concurrently, and the block
  \<^verbatim>\<open>if cfg.Install { ... }\<close> of each works on the two package variables
  \<^verbatim>\<open>installPlaywrightSem\<close> (a semaphore of capacity 1) and \<^verbatim>\<open>installedPlaywright\<close>. Here
  the block is taken statement by statement. A caller whose configuration asks for the
  installation is at one of these points:
  \<^item> \<open>AtAcquire\<close>: before or in \<^verbatim>\<open>installPlaywrightSem.Acquire(ctxT, 1)\<close>;
  \<^item> \<open>AtLoad\<close>: in the function literal, before \<^verbatim>\<open>installedPlaywright.Load()\<close>;
  \<^item> \<open>AtInstall\<close>: before \<^verbatim>\<open>playwright.Install\<close>;
  \<^item> \<open>AtStore\<close>: before \<^verbatim>\<open>installedPlaywright.Store(true)\<close>;
  \<^item> \<open>AtRelease err\<close>: leaving the function literal, before the deferred
    \<^verbatim>\<open>installPlaywrightSem.Release(1)\<close>, \<open>err\<close> being the variable \<^verbatim>\<open>err\<close>;
  \<^item> \<open>Left err\<close>: past the block, or out of the background function when
    \<^verbatim>\<open>Acquire\<close> returned an error.
\<close>

datatype install_pc =
    AtAcquire
  | AtLoad
  | AtInstall
  | AtStore
  | AtRelease "error option"
  | Left "error option"

text \<open>What a caller does in the block, and the turns of a schedule: a caller runs its
  next statement, or the deadline \<^verbatim>\<open>ctxT\<close> of a caller passes.\<close>

datatype install_action =
    LockAcquired
  | LockRefused
  | FlagLoaded bool
  | InstallRun "error option"
  | FlagStored
  | LockReleased

datatype turn = Runs nat | Expires nat

text \<open>The semaphore (the number of slots taken, of one), the flag, the point of each
  caller and what the callers have done, in the order they did it.\<close>

record install_section =
  taken :: nat
  installed :: bool
  at :: "nat \<Rightarrow> install_pc"
  history :: "(nat \<times> install_action) list"

definition install_begin :: "bool \<Rightarrow> install_section" where
  "install_begin flag =
     \<lparr>taken = 0, installed = flag, at = (\<lambda>c. AtAcquire), history = []\<rparr>"

text \<open>
  One turn. \<open>outcome c\<close> is what \<^verbatim>\<open>playwright.Install\<close> returns to caller \<open>c\<close>. A caller
  in \<^verbatim>\<open>Acquire\<close> goes on when the slot is free and stays where it is when it is not;
  when its deadline passes there, \<^verbatim>\<open>Acquire\<close> returns the error of the context and the
  caller leaves the block. A turn that cannot be taken leaves the state as it is.
\<close>

fun install_turn ::
  "(nat \<Rightarrow> error option) \<Rightarrow> install_section \<Rightarrow> turn \<Rightarrow> install_section" where
  "install_turn outcome s (Expires c) =
     (case at s c of
        AtAcquire \<Rightarrow>
          s\<lparr>at := (at s)(c := Left (Some DeadlineExceeded)),
            history := history s @ [(c, LockRefused)]\<rparr>
      | _ \<Rightarrow> s)"
| "install_turn outcome s (Runs c) =
     (case at s c of
        AtAcquire \<Rightarrow>
          if taken s < 1
          then s\<lparr>taken := taken s + 1, at := (at s)(c := AtLoad),
                 history := history s @ [(c, LockAcquired)]\<rparr>
          else s
      | AtLoad \<Rightarrow>
          s\<lparr>at := (at s)(c := if installed s then AtRelease None else AtInstall),
            history := history s @ [(c, FlagLoaded (installed s))]\<rparr>
      | AtInstall \<Rightarrow>
          s\<lparr>at := (at s)(c := case outcome c of
                                 Some e \<Rightarrow> AtRelease (Some e)
                               | None \<Rightarrow> AtStore),
            history := history s @ [(c, InstallRun (outcome c))]\<rparr>
      | AtStore \<Rightarrow>
          s\<lparr>installed := True, at := (at s)(c := AtRelease None),
            history := history s @ [(c, FlagStored)]\<rparr>
      | AtRelease err \<Rightarrow>
          s\<lparr>taken := taken s - 1, at := (at s)(c := Left err),
            history := history s @ [(c, LockReleased)]\<rparr>
      | Left err \<Rightarrow> s)"

text \<open>The callers run from the start of the process, the flag being \<open>flag\<close>, under a
  schedule.\<close>

definition install_run ::
  "(nat \<Rightarrow> error option) \<Rightarrow> bool \<Rightarrow> turn list \<Rightarrow> install_section" where
  "install_run outcome flag schedule = foldl (install_turn outcome) (install_begin flag) schedule"

text \<open>
  Reading a history. \<open>lock_discipline h l\<close> checks \<open>l\<close>, \<open>h\<close> being the caller that holds
  the lock before it: the lock is acquired only when no caller holds it and released only
  by the caller that holds it, a caller refused the lock does not hold it, and the flag
  is loaded, the installation run and the flag stored by the caller that holds the lock
  only. \<open>holder_after\<close> is the caller that holds the lock after \<open>l\<close>, \<open>thread\<close> what one
  caller did, and \<open>successes\<close> the number of installations that succeeded.
\<close>

fun lock_discipline :: "nat option \<Rightarrow> (nat \<times> install_action) list \<Rightarrow> bool" where
  "lock_discipline h [] = True"
| "lock_discipline h ((c, LockAcquired) # l) = (h = None \<and> lock_discipline (Some c) l)"
| "lock_discipline h ((c, LockReleased) # l) = (h = Some c \<and> lock_discipline None l)"
| "lock_discipline h ((c, LockRefused) # l) = (h \<noteq> Some c \<and> lock_discipline h l)"
| "lock_discipline h ((c, FlagLoaded b) # l) = (h = Some c \<and> lock_discipline h l)"
| "lock_discipline h ((c, InstallRun res) # l) = (h = Some c \<and> lock_discipline h l)"
| "lock_discipline h ((c, FlagStored) # l) = (h = Some c \<and> lock_discipline h l)"

fun holder_after :: "nat option \<Rightarrow> (nat \<times> install_action) list \<Rightarrow> nat option" where
  "holder_after h [] = h"
| "holder_after h ((c, LockAcquired) # l) = holder_after (Some c) l"
| "holder_after h ((c, LockReleased) # l) = holder_after None l"
| "holder_after h ((c, a) # l) = holder_after h l"

definition thread :: "nat \<Rightarrow> (nat \<times> install_action) list \<Rightarrow> install_action list" where
  "thread c l = map snd (filter (\<lambda>e. fst e = c) l)"

definition successes :: "(nat \<times> install_action) list \<Rightarrow> nat" where
  "successes l = length (filter (\<lambda>e. snd e = InstallRun None) l)"

text \<open>What a caller at a given point of the block has done so far: \<open>fits outcome c pc acts\<close>
  holds when \<open>acts\<close> is a history of caller \<open>c\<close> that ends at \<open>pc\<close>.\<close>

fun fits :: "(nat \<Rightarrow> error option) \<Rightarrow> nat \<Rightarrow> install_pc \<Rightarrow> install_action list \<Rightarrow> bool" where
  "fits outcome c AtAcquire acts = (acts = [])"
| "fits outcome c AtLoad acts = (acts = [LockAcquired])"
| "fits outcome c AtInstall acts = (acts = [LockAcquired, FlagLoaded False])"
| "fits outcome c AtStore acts =
     (acts = [LockAcquired, FlagLoaded False, InstallRun None] \<and> outcome c = None)"
| "fits outcome c (AtRelease err) acts =
     ((acts = [LockAcquired, FlagLoaded True] \<and> err = None)
      \<or> (acts = [LockAcquired, FlagLoaded False, InstallRun err]
          \<and> err \<noteq> None \<and> err = outcome c)
      \<or> (acts = [LockAcquired, FlagLoaded False, InstallRun None, FlagStored]
          \<and> err = None \<and> outcome c = None))"
| "fits outcome c (Left err) acts =
     ((acts = [LockRefused] \<and> err = Some DeadlineExceeded)
      \<or> (acts = [LockAcquired, FlagLoaded True, LockReleased] \<and> err = None)
      \<or> (acts = [LockAcquired, FlagLoaded False, InstallRun err, LockReleased]
          \<and> err \<noteq> None \<and> err = outcome c)
      \<or> (acts = [LockAcquired, FlagLoaded False, InstallRun None, FlagStored, LockReleased]
          \<and> err = None \<and> outcome c = None))"

section \<open>The reference registry\<close>

text \<open>
  The outcome of resolving a reference: an error or the extracted node.
\<close>

type_synonym outcome = "error + jsonable"

text \<open>Modelled from the spec: the state of a reference. The registry package is not
  among the sources (only a test that registers references is); the spec gives each
  reference the states Unresolved, Resolving and Resolved (with a value or an error),
  passed through in this order, once.\<close>

datatype ref_state = Unresolved | Resolving | Resolved outcome

text \<open>
  What happens at the registry, one atomic transition each: a caller enters
  \<^verbatim>\<open>resolve(name)\<close>; the resolver that runs for a name (the underlying fetch and extract)
  returns an outcome; \<^verbatim>\<open>resolve(name)\<close> returns to a caller. A schedule of concurrent
  callers is a list of such events, in any interleaving.
\<close>

datatype reg_event =
    Enter nat string
  | Complete string outcome
  | Return nat string

record registry =
  reference :: "string \<Rightarrow> ref_state"
  executed :: "string list"
  inside :: "(nat \<times> string) list"
  observed :: "(nat \<times> string \<times> outcome) list"

text \<open>Modelled from the spec: registration leaves every reference unresolved.\<close>

definition SetReference :: registry where
  "SetReference =
     \<lparr>reference = (\<lambda>name. Unresolved), executed = [], inside = [], observed = []\<rparr>"

text \<open>Modelled from the spec: the transitions of \<^verbatim>\<open>resolve(name)\<close>. The first caller
  for a name executes the resolver (an entry of \<open>executed\<close>); a caller that enters while the
  name is resolving or resolved executes nothing; the resolver's outcome is stored once; a
  caller returns only when the name is resolved, and with the stored outcome. An event
  that cannot happen in the current state leaves it unchanged.\<close>

fun resolve_step :: "registry \<Rightarrow> reg_event \<Rightarrow> registry" where
  "resolve_step r (Enter c name) =
     (case reference r name of
        Unresolved \<Rightarrow>
          r\<lparr>reference := (reference r)(name := Resolving),
            executed := executed r @ [name],
            inside := inside r @ [(c, name)]\<rparr>
      | Resolving \<Rightarrow> r\<lparr>inside := inside r @ [(c, name)]\<rparr>
      | Resolved out \<Rightarrow> r\<lparr>inside := inside r @ [(c, name)]\<rparr>)"
| "resolve_step r (Complete name out) =
     (case reference r name of
        Unresolved \<Rightarrow> r
      | Resolving \<Rightarrow> r\<lparr>reference := (reference r)(name := Resolved out)\<rparr>
      | Resolved out' \<Rightarrow> r)"
| "resolve_step r (Return c name) =
     (case reference r name of
        Unresolved \<Rightarrow> r
      | Resolving \<Rightarrow> r
      | Resolved out \<Rightarrow>
          if (c, name) \<in> set (inside r)
          then r\<lparr>inside := remove1 (c, name) (inside r),
                 observed := observed r @ [(c, name, out)]\<rparr>
          else r)"

definition resolve_run :: "reg_event list \<Rightarrow> registry" where
  "resolve_run schedule = foldl resolve_step SetReference schedule"

section \<open>Concrete runs\<close>

text \<open>
  A scope in which the iteration index is 3 and the environment variable
  \<^verbatim>\<open>HTTP_METHOD\<close> is \<^verbatim>\<open>POST\<close>: the values of \<^verbatim>\<open>utils.Format\<close> on the strings of
  the examples.
\<close>

definition example_Format :: "string \<Rightarrow> string" where
  "example_Format s =
     (if s = ''{INDEX}'' then ''3''
      else if s = ''http://api.test/items/{INDEX}'' then ''http://api.test/items/3''
      else if s = ''{{{FromEnv=HTTP_METHOD}}}'' then ''POST''
      else s)"

text \<open>
  An outside in which every pool has a free slot, \<^verbatim>\<open>http.NewRequest\<close> rejects a method
  that holds a brace (not a token character), \<^verbatim>\<open>url.Parse\<close> rejects a text that holds a
  space, the host \<^verbatim>\<open>api.test\<close> has a limiter and the server answers.
\<close>

definition example_world :: world where
  "example_world =
     \<lparr>Format = example_Format,
      free_after = (\<lambda>p. Some 0),
      request_error =
        (\<lambda>m u. if CHR ''{'' \<in> set m then Some (Failure ''net/http: invalid method'') else None),
      host_of = (\<lambda>u. ''api.test''),
      CanonicalHeaderKey = (\<lambda>k. if k = ''x-token'' then ''X-Token'' else k),
      GetDefaultClient = 0,
      url_Parse =
        (\<lambda>s. if CHR '' '' \<in> set s then Inl (Failure ''invalid character in host name'')
              else Inr \<lparr>url_text = s, url_User = None\<rparr>),
      HostLimiter = (\<lambda>h. h = ''api.test''),
      PlaywrightLimiter = False,
      client_Do =
        (\<lambda>req tr cx. Inr \<lparr>resp_Header = [(''Content-Type'', [''application/json''])],
                            resp_Body = Inr ''{}''\<rparr>)\<rparr>"

definition example_state :: state where
  "example_state = \<lparr>transports = (\<lambda>c. BuiltIn), installedPlaywright = False, trace = []\<rparr>"

definition example_cfg :: ServerConnectorConfig where
  "example_cfg =
     \<lparr>Method = ''GET'', Headers = [(''X-Index'', ''{INDEX}'')], Timeout = 1, Body = '''',
      JsonRawBody = None, Proxy = None\<rparr>"

definition example_api :: apiConnector where
  "example_api = \<lparr>url = ''http://api.test/items/{INDEX}'', client = None, cfg = example_cfg\<rparr>"

definition example_proxy :: ProxyConfig where
  "example_proxy = \<lparr>Server = ''http://proxy.test:3128'', Username = ''u'', Password = ''''\<rparr>"

text \<open>The same connector behind a proxy, and behind a proxy whose address does not parse.\<close>

definition example_proxy_api :: apiConnector where
  "example_proxy_api = example_api\<lparr>cfg := example_cfg\<lparr>Proxy := Some example_proxy\<rparr>\<rparr>"

definition example_bad_proxy_api :: apiConnector where
  "example_bad_proxy_api =
     example_api\<lparr>cfg := example_cfg\<lparr>Proxy := Some (example_proxy\<lparr>Server := ''http://proxy test''\<rparr>)\<rparr>\<rparr>"

text \<open>The request of the examples and the proxy transport of \<open>example_proxy\<close>.\<close>

definition example_request :: request where
  "example_request =
     \<lparr>req_Method = ''GET'', req_URL = ''http://api.test/items/3'', req_Host = ''api.test'',
      req_Header = [(''X-Index'', [''3''])], req_Body = ''''\<rparr>"

definition example_transport :: transport where
  "example_transport =
     ProxyTransport \<lparr>url_text = ''http://proxy.test:3128'', url_User = Some (User ''u'')\<rparr>"

text \<open>The log of a fetch of the examples that sends its request through the transport
  \<open>tr\<close>.\<close>

definition example_log :: "transport \<Rightarrow> event list" where
  "example_log tr =
     [Acquire GlobalPool,
      NewRequest ''GET'' ''http://api.test/items/3'' '''',
      Acquire (HostPool ''api.test''),
      Do 0 example_request tr (WithTimeout Background 1),
      BodyClose,
      Cancel (WithTimeout Background 1),
      Release (HostPool ''api.test''),
      Release GlobalPool]"

definition example_reply :: reply where
  "example_reply = (Some [(''Content-Type'', [''application/json''])], Some ''{}'', None)"

text \<open>A browser runtime in which every step succeeds in time, and a configuration that asks
  for the installation and the Chromium engine.\<close>

definition example_playwright :: playwright where
  "example_playwright =
     \<lparr>Install_error = None, Run_error = None, Launch_error = (\<lambda>b. None),
      NewPage_error = None, Inject_error = None, AddInitScript_error = None,
      Goto_error = (\<lambda>u. None), Evaluate_error = (\<lambda>script. None),
      Content_result = Inr ''<html></html>'', deadline_at = None\<rparr>"

definition example_pw_cfg :: PlaywrightConfig where
  "example_pw_cfg =
     \<lparr>Install = True, Browser = Chromium, Stealth = False, PwTimeout = 0, Wait = 0,
      TypeOfWait = None, PreRunScript = '''', PwProxy = None\<rparr>"

text \<open>The log of a browser fetch of \<^verbatim>\<open>http://api.test/page\<close> from the start of the
  runtime on, every step succeeding.\<close>

definition example_browse :: "event list" where
  "example_browse =
     [PwRun, PwLaunch ''Chromium'' None, PwNewPage,
      PwGoto ''http://api.test/page'' 60000 None, PwContent, PwPageClose, PwBrowserClose,
      PwStop, Cancel (WithTimeout Background 60)]"

text \<open>Three callers resolve the reference \<^verbatim>\<open>X\<close>: two enter before the resolver has
  returned, the third after.\<close>

definition example_schedule :: "reg_event list" where
  "example_schedule =
     [Enter 1 ''X'', Enter 2 ''X'', Complete ''X'' (Inr Null), Return 1 ''X'',
      Enter 3 ''X'', Return 2 ''X'', Return 3 ''X'']"







text \<open>
  Three callers in the install section, the flag unset: callers 1 and 2 ask for the lock
  while it is free or held, caller 1 installs, caller 2 then finds the flag set, and the
  deadline of caller 3 passes while it waits. \<open>example_history\<close> is what they have done
  at the end.
\<close>

definition example_turns :: "turn list" where
  "example_turns =
     [Runs 1, Runs 2, Runs 3, Runs 1, Runs 2, Runs 1, Expires 3, Runs 1, Runs 2, Runs 1,
      Runs 2, Runs 2, Runs 2]"

definition example_history :: "(nat \<times> install_action) list" where
  "example_history =
     [(1, LockAcquired), (1, FlagLoaded False), (1, InstallRun None), (3, LockRefused),
      (1, FlagStored), (1, LockReleased), (2, LockAcquired), (2, FlagLoaded True),
      (2, LockReleased)]"

section \<open>Properties of the array node\<close>

lemma ToJson_loop_commas:
  "n = i + length items \<Longrightarrow> ToJson_loop n i str items = str @ commas items"
proof (induction items arbitrary: i str)
  case Nil
  then show ?case by simp
next
  case (Cons a items)
  show ?case
  proof (cases items)
    case Nil
    with Cons.prems show ?thesis by simp
  next
    case (Cons b rest)
    from Cons.prems Cons have more: "int i \<noteq> int n - 1" by simp
    have "ToJson_loop n i str (a # items) = ToJson_loop n (i + 1) (str @ a @ '','') items"
      using more by simp
    also have "\<dots> = (str @ a @ '','') @ commas items"
      using Cons.prems by (intro Cons.IH) simp
    also have "\<dots> = str @ commas (a # items)"
      using Cons by simp
    finally show ?thesis .
  qed
qed

lemma json_elements_commas:
  "list_all2 json_parses ss vs \<Longrightarrow> ss \<noteq> [] \<Longrightarrow> json_elements (commas ss) vs"
proof (induction ss vs rule: list_all2_induct)
  case Nil
  then show ?case by simp
next
  case (Cons s ss v vs)
  show ?case
  proof (cases ss)
    case Nil
    with Cons.hyps show ?thesis by (simp add: elements_one)
  next
    case (Cons s' rest)
    with Cons.IH have "json_elements (commas ss) vs" by simp
    with Cons.hyps(1) have "json_elements (s @ '','' @ commas ss) (v # vs)"
      by (rule elements_more)
    with Cons show ?thesis by simp
  qed
qed

lemma json_parses_array:
  assumes "list_all2 json_parses ss vs"
  shows "json_parses (''['' @ commas ss @ '']'') (RArr vs)"
proof (cases ss)
  case Nil
  with assms have "vs = []" by simp
  moreover have "json_parses (''['' @ [] @ '']'') (RArr [])"
    by (rule parses_empty_array) (simp add: json_ws_def)
  ultimately show ?thesis using Nil by simp
next
  case (Cons s rest)
  with assms have "json_elements (commas ss) vs" by (intro json_elements_commas) simp_all
  then show ?thesis by (rule parses_array)
qed

lemma ToJson_parses_Raw: "reparses n \<Longrightarrow> json_parses (ToJson n) (Raw n)"
proof (induction n)
  case (Opaque e j r)
  then show ?case by simp
next
  case (ArrayField items)
  let ?render = "\<lambda>item. case item of None \<Rightarrow> ToJson Null | Some v \<Rightarrow> ToJson v"
  let ?raw = "\<lambda>item. case item of None \<Rightarrow> Raw Null | Some v \<Rightarrow> Raw v"
  have each: "json_parses (?render item) (?raw item)" if "item \<in> set items" for item
  proof (cases item)
    case None
    then show ?thesis by (simp add: Null_def parses_null)
  next
    case (Some v)
    with that ArrayField.prems have "reparses v" by (auto simp: list_all_iff)
    with that Some ArrayField.IH [of item v] show ?thesis by simp
  qed
  then have "list_all2 json_parses (map ?render items) (map ?raw items)"
    by (simp add: list_all2_conv_all_nth)
  then have "json_parses (''['' @ commas (map ?render items) @ '']'') (RArr (map ?raw items))"
    by (rule json_parses_array)
  then show ?case by (simp add: ToJson_loop_commas)
qed


text \<open>
  Claim C7. For every array node whose elements that are not arrays re-parse to their own
  raw value (at any depth), the text \<^verbatim>\<open>ToJson()\<close> produces parses to the value
  \<^verbatim>\<open>Raw()\<close> returns; a nil element is the text of the Null node in the one and the raw
  value of the Null node in the other.
\<close>

theorem array_ToJson_parses_to_Raw:
  assumes "reparses (Array items)"
  shows "json_parses (ToJson (Array items)) (Raw (Array items))
    \<and> ToJson (Array items) =
        ''['' @ commas (map (\<lambda>item. case item of None \<Rightarrow> ToJson Null | Some v \<Rightarrow> ToJson v) items)
          @ '']''
    \<and> Raw (Array items) =
        RArr (map (\<lambda>item. case item of None \<Rightarrow> Raw Null | Some v \<Rightarrow> Raw v) items)"
proof -
  from assms have "json_parses (ToJson (Array items)) (Raw (Array items))"
    by (rule ToJson_parses_Raw)
  then show ?thesis
    by (simp add: Array_def ToJson_loop_commas)
qed

theorem array_ToJson_parses_to_Raw_witness:
  "reparses (Array [None, Some (Opaque False ''true'' (RBool True)), Some (Array [None])])
   \<and> json_parses ''[null,true,[null]]'' (RArr [RNil, RBool True, RArr [RNil]])"
proof -
  have h: "reparses (Array [None, Some (Opaque False ''true'' (RBool True)), Some (Array [None])])"
    by (simp add: Array_def parses_true)
  from array_ToJson_parses_to_Raw [OF h] h show ?thesis
    by (simp add: Array_def Null_def)
qed

text \<open>
  Without nil elements \<^verbatim>\<open>IsEmpty()\<close> returns, and it returns true exactly when every
  element is empty.
\<close>

lemma IsEmpty_loop_all_empty:
  assumes "\<And>v. Some v \<in> set items \<Longrightarrow> IsEmpty v = Some (all_empty v)"
    and "None \<notin> set items"
  shows "IsEmpty_loop items =
    Some (list_all (\<lambda>item. case item of None \<Rightarrow> True | Some v \<Rightarrow> all_empty v) items)"
  using assms
proof (induction items)
  case Nil
  then show ?case by simp
next
  case (Cons item items)
  then obtain v where v: "item = Some v" by (cases item) auto
  with Cons.prems have "IsEmpty v = Some (all_empty v)" by simp
  moreover from Cons have "IsEmpty_loop items =
    Some (list_all (\<lambda>item. case item of None \<Rightarrow> True | Some v \<Rightarrow> all_empty v) items)"
    by simp
  ultimately show ?case using v by simp
qed

lemma IsEmpty_without_nil: "\<not> has_nil n \<Longrightarrow> IsEmpty n = Some (all_empty n)"
proof (induction n)
  case (Opaque e j r)
  then show ?case by simp
next
  case (ArrayField items)
  have "IsEmpty v = Some (all_empty v)" if "Some v \<in> set items" for v
    using that ArrayField.prems ArrayField.IH [of "Some v" v]
    by (auto simp: list_ex_iff)
  moreover from ArrayField.prems have "None \<notin> set items"
    by (auto simp: list_ex_iff)
  ultimately have "IsEmpty_loop items =
    Some (list_all (\<lambda>item. case item of None \<Rightarrow> True | Some v \<Rightarrow> all_empty v) items)"
    by (rule IsEmpty_loop_all_empty)
  then show ?case by (cases items) simp_all
qed

text \<open>
  Claim C8. \<^verbatim>\<open>ToJson()\<close> and \<^verbatim>\<open>Raw()\<close> take a nil element for the Null node, which is
  empty, so the array of one nil element has only empty elements; \<^verbatim>\<open>IsEmpty()\<close> calls
  the method on the nil element and does not return.
\<close>

theorem IsEmpty_nil_element_panics:
  "IsEmpty (Array [None]) = None
   \<and> all_empty (Array [None])
   \<and> ToJson (Array [None]) = ''[null]''
   \<and> Raw (Array [None]) = RArr [RNil]"
  by (simp add: Array_def Null_def)

section \<open>Properties of the HTTP connector\<close>

lemma trace_emit [simp]: "trace (emit e st) = trace st @ [e]"
  and transports_emit [simp]: "transports (emit e st) = transports st"
  and installed_emit [simp]: "installedPlaywright (emit e st) = installedPlaywright st"
  by (simp_all add: emit_def)

lemma emitted_append [simp]: "trace st' = trace st @ evs \<Longrightarrow> emitted st st' = evs"
  by (simp add: emitted_def)

lemma sem_Acquire_ctx:
  "sem_Acquire ctx f = (case f of None \<Rightarrow> Blocked | Some t \<Rightarrow> Granted)"
  by (simp add: sem_Acquire_def ctx_def)

lemma governed_neutral:
  "list_all neutral evs \<Longrightarrow> governed lim held (evs @ rest) = governed lim held rest"
proof (induction evs)
  case Nil
  then show ?case by simp
next
  case (Cons e evs)
  then show ?case by (cases e) simp_all
qed

lemma send_emits:
  assumes "send w api req c st = (r, st')"
  shows "\<exists>tail. trace st' = trace st @ Do c req (transports st c) (request_ctx api) # tail
           \<and> list_all neutral tail \<and> transports st' = transports st
           \<and> installedPlaywright st' = installedPlaywright st"
  using assms
  by (auto simp: send_def Let_def split: sum.splits)

lemma set_proxy_trace:
  "set_proxy w api c err st = Inr st2 \<Longrightarrow> trace st2 = trace st"
  by (auto simp: set_proxy_def Let_def split: option.splits sum.splits if_splits)

lemma get_held_emits:
  assumes "get_held w api fu fb st = Some (r, st')"
  shows "\<exists>evs. trace st' = trace st @ evs
           \<and> (\<forall>rest. governed (HostLimiter w) [GlobalPool] (evs @ rest)
                      = governed (HostLimiter w) [GlobalPool] rest)"
proof (cases "http_NewRequest w (Method (cfg api)) fu fb")
  case (Inl e)
  with assms have "trace st' = trace st @ [NewRequest (Method (cfg api)) fu fb]"
    by (auto simp: get_held_def Let_def)
  then show ?thesis by simp
next
  case (Inr req0)
  define req where "req = req0\<lparr>req_Header :=
     add_headers w (Headers (cfg api)) (req_Header req0)\<rparr>"
  define c where "c = chosen_client w api"
  define st1 where "st1 = emit (NewRequest (Method (cfg api)) fu fb) st"
  show ?thesis
  proof (cases "set_proxy w api c None st1")
    case (Inl early)
    with assms Inr have "trace st' = trace st @ [NewRequest (Method (cfg api)) fu fb]"
      by (auto simp: get_held_def Let_def c_def st1_def)
    then show ?thesis by simp
  next
    case proxy: (Inr st2)
    then have t2: "trace st2 = trace st @ [NewRequest (Method (cfg api)) fu fb]"
      by (simp add: set_proxy_trace st1_def)
    show ?thesis
    proof (cases "HostLimiter w (req_Host req)")
      case False
      with assms Inr proxy have "send w api req c st2 = (r, st')"
        by (auto simp: get_held_def Let_def c_def st1_def req_def)
      from send_emits [OF this] obtain tail where
        "trace st' = trace st2 @ Do c req (transports st2 c) (request_ctx api) # tail"
        and "list_all neutral tail" by blast
      with t2 False show ?thesis
        by (auto simp: governed_neutral)
    next
      case True
      with assms Inr proxy obtain st3 where
        sent: "send w api req c (emit (Acquire (HostPool (req_Host req))) st2) = (r, st3)"
        and st': "st' = emit (Release (HostPool (req_Host req))) st3"
        by (auto simp: get_held_def Let_def c_def st1_def req_def sem_Acquire_ctx
            split: option.splits prod.splits)
      from send_emits [OF sent] obtain tail where
        "trace st3 = trace st2 @ Acquire (HostPool (req_Host req))
            # Do c req (transports st2 c) (request_ctx api) # tail"
        and "list_all neutral tail" by auto
      with t2 st' True show ?thesis
        by (auto simp: governed_neutral)
    qed
  qed
qed

lemma get_emits:
  assumes "get w api st = Some (r, st')"
  shows "trace st' = trace st @ emitted st st'
       \<and> governed (HostLimiter w) [] (emitted st st')"
proof (cases "Format w (url api) = ''''")
  case True
  with assms have "st' = st" by (simp add: get_def Let_def)
  then show ?thesis by (simp add: emitted_def)
next
  case False
  with assms obtain fb st2 where
    held: "get_held w api (Format w (url api)) fb (emit (Acquire GlobalPool) st) = Some (r, st2)"
    and st': "st' = emit (Release GlobalPool) st2"
    by (auto simp: get_def Let_def sem_Acquire_ctx split: option.splits)
  from get_held_emits [OF held] obtain evs where
    evs: "trace st2 = trace st @ Acquire GlobalPool # evs"
    and gov: "\<And>rest. governed (HostLimiter w) [GlobalPool] (evs @ rest)
                = governed (HostLimiter w) [GlobalPool] rest"
    by auto
  from evs st' have tr: "trace st' = trace st @ (Acquire GlobalPool # evs @ [Release GlobalPool])"
    by simp
  then have em: "emitted st st' = Acquire GlobalPool # evs @ [Release GlobalPool]"
    by (rule emitted_append)
  have "governed (HostLimiter w) [] (Acquire GlobalPool # evs @ [Release GlobalPool])"
    using gov [of "[Release GlobalPool]"] by simp
  with tr show ?thesis unfolding em by blast
qed

lemma neutral_not_Do: "list_all neutral tail \<Longrightarrow> Do c req tr cx \<notin> set tail"
  by (auto simp: list_all_iff)

lemma send_Do:
  assumes "send w api req c st = (r, st')"
    and "Do c' req' tr' cx' \<in> set (emitted st st')"
  shows "c' = c \<and> req' = req \<and> tr' = transports st c \<and> cx' = request_ctx api"
proof -
  from send_emits [OF assms(1)] obtain tail where
    t: "trace st' = trace st @ Do c req (transports st c) (request_ctx api) # tail"
    and n: "list_all neutral tail" by blast
  from t have "emitted st st' = Do c req (transports st c) (request_ctx api) # tail"
    by simp
  with assms(2) neutral_not_Do [OF n] show ?thesis by auto
qed

lemma set_proxy_Inr:
  assumes "set_proxy w api c err st = Inr st2"
  shows "trace st2 = trace st"
    and "Proxy (cfg api) = None \<Longrightarrow> st2 = st"
    and "Proxy (cfg api) = Some p \<Longrightarrow>
      \<exists>proxyUrl. url_Parse w (Format w (Server p)) = Inr proxyUrl
        \<and> transports st2 = (transports st)(c := ProxyTransport (with_credentials w p proxyUrl))"
  using assms by (auto simp: set_proxy_def split: option.splits sum.splits)

lemma get_held_Do:
  assumes "get_held w api fu fb st = Some (r, st')"
    and "Do c req tr cx \<in> set (emitted st st')"
  shows "c = chosen_client w api \<and> req = built_request w api fu fb \<and> cx = request_ctx api
    \<and> (\<exists>st2. set_proxy w api c None (emit (NewRequest (Method (cfg api)) fu fb) st) = Inr st2
          \<and> tr = transports st2 c)"
proof (cases "http_NewRequest w (Method (cfg api)) fu fb")
  case (Inl e)
  with assms(1) have "trace st' = trace st @ [NewRequest (Method (cfg api)) fu fb]"
    by (auto simp: get_held_def Let_def)
  with assms(2) show ?thesis by simp
next
  case (Inr req0)
  define rq where "rq = req0\<lparr>req_Header :=
     add_headers w (Headers (cfg api)) (req_Header req0)\<rparr>"
  from Inr have rq: "rq = built_request w api fu fb"
    by (auto simp: http_NewRequest_def built_request_def rq_def split: option.splits)
  define cl where "cl = chosen_client w api"
  define st1 where "st1 = emit (NewRequest (Method (cfg api)) fu fb) st"
  show ?thesis
  proof (cases "set_proxy w api cl None st1")
    case (Inl early)
    with assms(1) Inr have "trace st' = trace st @ [NewRequest (Method (cfg api)) fu fb]"
      by (auto simp: get_held_def Let_def cl_def chosen_client_def st1_def)
    with assms(2) show ?thesis by simp
  next
    case proxy: (Inr st2)
    then have t2: "trace st2 = trace st @ [NewRequest (Method (cfg api)) fu fb]"
      by (simp add: set_proxy_Inr(1) st1_def)
    show ?thesis
    proof (cases "HostLimiter w (req_Host rq)")
      case False
      with assms(1) Inr proxy have sent: "send w api rq cl st2 = (r, st')"
        by (auto simp: get_held_def Let_def cl_def chosen_client_def st1_def rq_def)
      from send_emits [OF sent] obtain tail where
        "trace st' = trace st2 @ Do cl rq (transports st2 cl) (request_ctx api) # tail"
        and n: "list_all neutral tail" by blast
      with t2 have "emitted st st' = NewRequest (Method (cfg api)) fu fb
          # Do cl rq (transports st2 cl) (request_ctx api) # tail"
        by simp
      with assms(2) neutral_not_Do [OF n] have
        "c = cl \<and> req = rq \<and> tr = transports st2 cl \<and> cx = request_ctx api" by auto
      with proxy rq show ?thesis by (auto simp: cl_def st1_def)
    next
      case True
      with assms(1) Inr proxy obtain st3 where
        sent: "send w api rq cl (emit (Acquire (HostPool (req_Host rq))) st2) = (r, st3)"
        and st': "st' = emit (Release (HostPool (req_Host rq))) st3"
        by (auto simp: get_held_def Let_def cl_def chosen_client_def st1_def rq_def
            sem_Acquire_ctx split: option.splits prod.splits)
      from send_emits [OF sent] obtain tail where
        "trace st3 = trace st2 @ Acquire (HostPool (req_Host rq))
            # Do cl rq (transports st2 cl) (request_ctx api) # tail"
        and n: "list_all neutral tail" by auto
      with t2 st' have "emitted st st' = NewRequest (Method (cfg api)) fu fb
          # Acquire (HostPool (req_Host rq))
          # Do cl rq (transports st2 cl) (request_ctx api) # tail
          @ [Release (HostPool (req_Host rq))]"
        by simp
      with assms(2) neutral_not_Do [OF n] have
        "c = cl \<and> req = rq \<and> tr = transports st2 cl \<and> cx = request_ctx api" by auto
      with proxy rq show ?thesis by (auto simp: cl_def st1_def)
    qed
  qed
qed

lemma get_unfold:
  "get w api st =
     (if Format w (url api) = '''' then Some ((None, None, Some errEmpty), st)
      else (case free_after w GlobalPool of
              None \<Rightarrow> None
            | Some t \<Rightarrow>
                (case get_held w api (Format w (url api)) (formatted_body w api)
                        (emit (Acquire GlobalPool) st) of
                   None \<Rightarrow> None
                 | Some (r, st') \<Rightarrow> Some (r, emit (Release GlobalPool) st'))))"
  by (simp add: get_def Let_def sem_Acquire_ctx split: option.splits)

lemma get_Do:
  assumes "get w api st = Some (r, st')"
    and "Do c req tr cx \<in> set (emitted st st')"
  shows "c = chosen_client w api
    \<and> req = built_request w api (Format w (url api)) (formatted_body w api)
    \<and> cx = request_ctx api
    \<and> (\<exists>st2. set_proxy w api c None
                (emit (NewRequest (Method (cfg api)) (Format w (url api)) (formatted_body w api))
                   (emit (Acquire GlobalPool) st)) = Inr st2
          \<and> tr = transports st2 c)"
proof (cases "Format w (url api) = ''''")
  case True
  with assms(1) have "st' = st" by (simp add: get_unfold)
  with assms(2) show ?thesis by (simp add: emitted_def)
next
  case False
  with assms(1) obtain st2 where
    held: "get_held w api (Format w (url api)) (formatted_body w api)
             (emit (Acquire GlobalPool) st) = Some (r, st2)"
    and st': "st' = emit (Release GlobalPool) st2"
    by (auto simp: get_unfold split: option.splits)
  from get_held_emits [OF held] obtain evs where
    evs: "trace st2 = trace st @ Acquire GlobalPool # evs" by auto
  then have "emitted (emit (Acquire GlobalPool) st) st2 = evs" by simp
  moreover from evs st' have "emitted st st' = Acquire GlobalPool # evs @ [Release GlobalPool]"
    by simp
  ultimately have "Do c req tr cx \<in> set (emitted (emit (Acquire GlobalPool) st) st2)"
    using assms(2) by auto
  from get_held_Do [OF held this] show ?thesis .
qed


lemma example_get:
  "get example_world example_api example_state =
     Some ((Some [(''Content-Type'', [''application/json''])], Some ''{}'', None),
       example_state\<lparr>trace :=
         [Acquire GlobalPool,
          NewRequest ''GET'' ''http://api.test/items/3'' '''',
          Acquire (HostPool ''api.test''),
          Do 0 \<lparr>req_Method = ''GET'', req_URL = ''http://api.test/items/3'',
                req_Host = ''api.test'', req_Header = [(''X-Index'', [''3''])], req_Body = ''''\<rparr>
             BuiltIn (WithTimeout Background 1),
          BodyClose,
          Cancel (WithTimeout Background 1),
          Release (HostPool ''api.test''),
          Release GlobalPool]\<rparr>)"
  by (simp add: get_def get_held_def send_def set_proxy_def http_NewRequest_def Header_Add_def
      formatted_body_def chosen_client_def request_ctx_def sem_Acquire_def ctx_def emit_def
      example_world_def example_api_def example_cfg_def example_state_def example_Format_def
      Let_def)


lemma get_blocked:
  "Format w (url api) \<noteq> '''' \<Longrightarrow> free_after w GlobalPool = None \<Longrightarrow> get w api st = None"
  by (simp add: get_unfold)













lemmas example_defs =
  example_world_def example_api_def example_cfg_def example_state_def example_Format_def
  example_proxy_def example_proxy_api_def example_bad_proxy_api_def example_request_def
  example_transport_def example_log_def example_reply_def

lemmas get_defs =
  get_def get_held_def send_def set_proxy_def http_NewRequest_def with_credentials_def
  Header_Add_def
  formatted_body_def chosen_client_def request_ctx_def sem_Acquire_def ctx_def emit_def
  timeout_def Let_def

lemma example_run:
  "get example_world example_api example_state =
     Some (example_reply, example_state\<lparr>trace := example_log BuiltIn\<rparr>)"
  by (simp add: get_defs example_defs)

lemma example_proxy_run:
  "get example_world example_proxy_api example_state =
     Some (example_reply,
       example_state\<lparr>transports := (transports example_state)(0 := example_transport),
                      trace := example_log example_transport\<rparr>)"
  by (simp add: get_defs example_defs)

lemma example_after_proxy_run:
  "get example_world example_api
     (example_state\<lparr>transports := (transports example_state)(0 := example_transport),
                    trace := example_log example_transport\<rparr>) =
     Some (example_reply,
       example_state\<lparr>transports := (transports example_state)(0 := example_transport),
                      trace := example_log example_transport @ example_log example_transport\<rparr>)"
  by (simp add: get_defs example_defs)

lemma example_bad_proxy_run:
  "get example_world example_bad_proxy_api example_state =
     Some ((None, None, None),
       example_state\<lparr>trace :=
         [Acquire GlobalPool, NewRequest ''GET'' ''http://api.test/items/3'' '''',
          Release GlobalPool]\<rparr>)"
  by (simp add: get_defs example_defs)






text \<open>
  Claim C6. In every call of \<^verbatim>\<open>get\<close> that returns, whatever it returns, the log of the
  call keeps the pool discipline (\<open>governed\<close>): the global slot is acquired before the
  slot of the host, the request is sent only while the global slot is held and, when the
  host has a limiter, the slot of the host too, and every slot acquired is released once,
  none being held at the end.
\<close>

theorem get_pool_discipline:
  assumes "get w api st = Some (r, st')"
  shows "trace st' = trace st @ emitted st st'
    \<and> governed (HostLimiter w) [] (emitted st st')"
  using assms by (rule get_emits)

theorem get_pool_discipline_witness:
  "get example_world example_api example_state =
     Some (example_reply, example_state\<lparr>trace := example_log BuiltIn\<rparr>)
   \<and> emitted example_state (example_state\<lparr>trace := example_log BuiltIn\<rparr>) = example_log BuiltIn
   \<and> governed (HostLimiter example_world) [] (example_log BuiltIn)"
proof -
  have "emitted example_state (example_state\<lparr>trace := example_log BuiltIn\<rparr>) = example_log BuiltIn"
    by (simp add: emitted_def example_state_def)
  with get_pool_discipline [OF example_run] example_run show ?thesis by simp
qed

text \<open>
  Claim C9. A fetch reaches the proxy block when its expanded URL is not empty, the global
  slot is granted and \<^verbatim>\<open>http.NewRequest\<close> accepts the request. If then the expanded
  proxy server does not parse as a URL, \<^verbatim>\<open>get\<close> returns nil headers, a nil body and a
  nil error; the log of the call holds the acquisition, the construction of the request
  and the release, and no request is sent.
\<close>

theorem get_proxy_parse_failure_returns_nil:
  assumes "Format w (url api) \<noteq> ''''"
    and "free_after w GlobalPool = Some t"
    and "request_error w (Method (cfg api)) (Format w (url api)) = None"
    and "Proxy (cfg api) = Some p"
    and "url_Parse w (Format w (Server p)) = Inl errProxy"
  shows "get w api st =
    Some ((None, None, None),
      st\<lparr>trace := trace st @
        [Acquire GlobalPool,
         NewRequest (Method (cfg api)) (Format w (url api)) (formatted_body w api),
         Release GlobalPool]\<rparr>)"
  using assms
  by (simp add: get_unfold get_held_def set_proxy_def http_NewRequest_def emit_def Let_def)

theorem get_proxy_parse_failure_returns_nil_witness:
  "Format example_world (url example_bad_proxy_api) \<noteq> ''''
   \<and> free_after example_world GlobalPool = Some 0
   \<and> request_error example_world (Method (cfg example_bad_proxy_api))
        (Format example_world (url example_bad_proxy_api)) = None
   \<and> Proxy (cfg example_bad_proxy_api) = Some (example_proxy\<lparr>Server := ''http://proxy test''\<rparr>)
   \<and> url_Parse example_world
        (Format example_world (Server (example_proxy\<lparr>Server := ''http://proxy test''\<rparr>)))
       = Inl (Failure ''invalid character in host name'')
   \<and> get example_world example_bad_proxy_api example_state =
       Some ((None, None, None),
         example_state\<lparr>trace :=
           [Acquire GlobalPool, NewRequest ''GET'' ''http://api.test/items/3'' '''',
            Release GlobalPool]\<rparr>)"
proof -
  have h1: "Format example_world (url example_bad_proxy_api) \<noteq> ''''"
    and h2: "free_after example_world GlobalPool = Some 0"
    and h3: "request_error example_world (Method (cfg example_bad_proxy_api))
        (Format example_world (url example_bad_proxy_api)) = None"
    and h4: "Proxy (cfg example_bad_proxy_api) = Some (example_proxy\<lparr>Server := ''http://proxy test''\<rparr>)"
    and h5: "url_Parse example_world
        (Format example_world (Server (example_proxy\<lparr>Server := ''http://proxy test''\<rparr>)))
       = Inl (Failure ''invalid character in host name'')"
    by (simp_all add: example_defs)
  from get_proxy_parse_failure_returns_nil [OF h1 h2 h3 h4 h5, of example_state] h1 h2 h3 h4 h5
  show ?thesis
    by (simp add: example_defs formatted_body_def)
qed

lemma send_transports:
  "send w api req c st = (r, st') \<Longrightarrow> transports st' = transports st"
  using send_emits by blast

lemma get_held_sets_transport:
  assumes "get_held w api fu fb st = Some (r, st')"
    and "request_error w (Method (cfg api)) fu = None"
    and "Proxy (cfg api) = Some p"
    and "url_Parse w (Format w (Server p)) = Inr proxyUrl"
  shows "transports st' =
    (transports st)(chosen_client w api := ProxyTransport (with_credentials w p proxyUrl))"
proof -
  define req where "req = built_request w api fu fb"
  define st2 where "st2 = (emit (NewRequest (Method (cfg api)) fu fb) st)
     \<lparr>transports := (transports st)(chosen_client w api :=
         ProxyTransport (with_credentials w p proxyUrl))\<rparr>"
  have t2: "transports st2 =
    (transports st)(chosen_client w api := ProxyTransport (with_credentials w p proxyUrl))"
    by (simp add: st2_def)
  show ?thesis
  proof (cases "HostLimiter w (host_of w fu)")
    case False
    with assms have "send w api req (chosen_client w api) st2 = (r, st')"
      by (simp add: get_held_def http_NewRequest_def set_proxy_def built_request_def
          req_def st2_def Let_def)
    from send_transports [OF this] t2 show ?thesis by simp
  next
    case True
    with assms obtain st3 where
      "send w api req (chosen_client w api) (emit (Acquire (HostPool (host_of w fu))) st2)
         = (r, st3)"
      and "st' = emit (Release (HostPool (host_of w fu))) st3"
      by (auto simp: get_held_def http_NewRequest_def set_proxy_def built_request_def
          req_def st2_def Let_def sem_Acquire_ctx split: option.splits prod.splits)
    with send_transports [of w api req "chosen_client w api"
        "emit (Acquire (HostPool (host_of w fu))) st2" r st3] t2
    show ?thesis by simp
  qed
qed

lemma get_sets_transport:
  assumes "get w api st = Some (r, st')"
    and "Format w (url api) \<noteq> ''''"
    and "request_error w (Method (cfg api)) (Format w (url api)) = None"
    and "Proxy (cfg api) = Some p"
    and "url_Parse w (Format w (Server p)) = Inr proxyUrl"
  shows "transports st' =
    (transports st)(chosen_client w api := ProxyTransport (with_credentials w p proxyUrl))"
proof -
  from assms(1,2) obtain st2 where
    held: "get_held w api (Format w (url api)) (formatted_body w api)
             (emit (Acquire GlobalPool) st) = Some (r, st2)"
    and st': "st' = emit (Release GlobalPool) st2"
    by (auto simp: get_unfold split: option.splits)
  from get_held_sets_transport [OF held assms(3,4,5)] st' show ?thesis by simp
qed

lemma get_without_proxy_uses_transport:
  assumes "get w api st = Some (r, st')"
    and "Proxy (cfg api) = None"
    and "Do c req tr cx \<in> set (emitted st st')"
  shows "c = chosen_client w api \<and> tr = transports st c"
proof -
  from get_Do [OF assms(1,3)] obtain st2 where
    c: "c = chosen_client w api"
    and proxy: "set_proxy w api c None
        (emit (NewRequest (Method (cfg api)) (Format w (url api)) (formatted_body w api))
           (emit (Acquire GlobalPool) st)) = Inr st2"
    and tr: "tr = transports st2 c"
    by blast
  from set_proxy_Inr(2) [OF proxy assms(2)] tr c show ?thesis by simp
qed

text \<open>
  Claim C10. A fetch with a proxy and no client of its own that reaches the proxy block
  (expanded URL not empty, request accepted, proxy server parsed) and returns leaves the
  proxy transport in the \<^verbatim>\<open>Transport\<close> field of the default client. Any later fetch
  with no client of its own and no proxy, started while the field still holds it, sends
  its request with the default client through that proxy transport.
\<close>

theorem get_proxy_persists_in_default_client:
  assumes "get w api st = Some (r, st')"
    and "client api = None"
    and "Format w (url api) \<noteq> ''''"
    and "request_error w (Method (cfg api)) (Format w (url api)) = None"
    and "Proxy (cfg api) = Some p"
    and "url_Parse w (Format w (Server p)) = Inr proxyUrl"
  shows "transports st' (GetDefaultClient w) = ProxyTransport (with_credentials w p proxyUrl)
    \<and> (\<forall>w2 api2 st2 r2 st2' c req tr cx.
         GetDefaultClient w2 = GetDefaultClient w
         \<and> client api2 = None \<and> Proxy (cfg api2) = None
         \<and> transports st2 (GetDefaultClient w) = transports st' (GetDefaultClient w)
         \<and> get w2 api2 st2 = Some (r2, st2')
         \<and> Do c req tr cx \<in> set (emitted st2 st2')
         \<longrightarrow> c = GetDefaultClient w \<and> tr = ProxyTransport (with_credentials w p proxyUrl))"
proof -
  from assms(2) have cl: "chosen_client w api = GetDefaultClient w"
    by (simp add: chosen_client_def)
  from get_sets_transport [OF assms(1,3,4,5,6)] cl
  have set: "transports st' (GetDefaultClient w) = ProxyTransport (with_credentials w p proxyUrl)"
    by simp
  have "c = GetDefaultClient w \<and> tr = ProxyTransport (with_credentials w p proxyUrl)"
    if "GetDefaultClient w2 = GetDefaultClient w" and "client api2 = None"
      and "Proxy (cfg api2) = None"
      and "transports st2 (GetDefaultClient w) = transports st' (GetDefaultClient w)"
      and "get w2 api2 st2 = Some (r2, st2')" and "Do c req tr cx \<in> set (emitted st2 st2')"
    for w2 api2 st2 r2 st2' c req tr cx
  proof -
    from that(1,2) have "chosen_client w2 api2 = GetDefaultClient w"
      by (simp add: chosen_client_def)
    with get_without_proxy_uses_transport [OF that(5) that(3) that(6)] that(4) set
    show ?thesis by simp
  qed
  with set show ?thesis by blast
qed

theorem get_proxy_persists_in_default_client_witness:
  "get example_world example_proxy_api example_state =
     Some (example_reply,
       example_state\<lparr>transports := (transports example_state)(0 := example_transport),
                      trace := example_log example_transport\<rparr>)
   \<and> client example_proxy_api = None
   \<and> Proxy (cfg example_proxy_api) = Some example_proxy
   \<and> client example_api = None \<and> Proxy (cfg example_api) = None
   \<and> get example_world example_api
       (example_state\<lparr>transports := (transports example_state)(0 := example_transport),
                      trace := example_log example_transport\<rparr>) =
     Some (example_reply,
       example_state\<lparr>transports := (transports example_state)(0 := example_transport),
                      trace := example_log example_transport @ example_log example_transport\<rparr>)
   \<and> Do 0 example_request example_transport (WithTimeout Background 1)
       \<in> set (example_log example_transport)
   \<and> example_transport =
       ProxyTransport (with_credentials example_world example_proxy
         \<lparr>url_text = ''http://proxy.test:3128'', url_User = None\<rparr>)"
proof -
  have h2: "client example_proxy_api = None"
    and h3: "Format example_world (url example_proxy_api) \<noteq> ''''"
    and h4: "request_error example_world (Method (cfg example_proxy_api))
         (Format example_world (url example_proxy_api)) = None"
    and h5: "Proxy (cfg example_proxy_api) = Some example_proxy"
    and h6: "url_Parse example_world (Format example_world (Server example_proxy))
         = Inr \<lparr>url_text = ''http://proxy.test:3128'', url_User = None\<rparr>"
    and h7: "client example_api = None \<and> Proxy (cfg example_api) = None"
    by (simp_all add: example_defs)
  have sent: "Do 0 example_request example_transport (WithTimeout Background 1)
      \<in> set (example_log example_transport)"
    by (simp add: example_log_def)
  from get_proxy_persists_in_default_client [OF example_proxy_run h2 h3 h4 h5 h6]
  have "example_transport =
       ProxyTransport (with_credentials example_world example_proxy
         \<lparr>url_text = ''http://proxy.test:3128'', url_User = None\<rparr>)"
    by (simp add: example_world_def)
  with example_proxy_run example_after_proxy_run h2 h5 h7 sent show ?thesis by simp
qed



section \<open>Properties of the browser connector\<close>

declare emitted_append [simp del]

lemmas playwright_defs =
  getFromPlaywright_def race_def background_def install_step_def install_locked_def
  browser_steps_def page_steps_def goto_steps_def launch_options_def
  afterwards_def emitted_def sem_Acquire_def ctx_def emit_def timeout_def Let_def

lemmas playwright_example_defs =
  example_world_def example_state_def example_playwright_def example_pw_cfg_def
  example_browse_def

lemma example_install_run:
  "getFromPlaywright example_world example_playwright ''http://api.test/page'' example_pw_cfg
     example_state =
   Some ((Some ''<html></html>'', None),
     example_state\<lparr>installedPlaywright := True,
       trace := [Acquire InstallLock, PwInstall None, Release InstallLock] @ example_browse\<rparr>)"
  by (simp add: playwright_defs playwright_example_defs)

text \<open>When no installation is asked for and every step succeeds in time, the call returns
  the markup of the page and a nil error.\<close>

lemma getFromPlaywright_all_steps_succeed:
  assumes "PlaywrightLimiter w \<longrightarrow> free_after w InstancePool \<noteq> None"
    and "\<not> Install conf"
    and "Run_error pw = None"
    and "Browser conf = Chromium \<or> Browser conf = FireFox \<or> Browser conf = WebKit"
    and "Launch_error pw (Browser conf) = None"
    and "NewPage_error pw = None"
    and "Stealth conf \<longrightarrow> Inject_error pw = None \<and> AddInitScript_error pw = None"
    and "Goto_error pw u = None"
    and "PreRunScript conf \<noteq> '''' \<longrightarrow> Evaluate_error pw (Format w (PreRunScript conf)) = None"
    and "Content_result pw = Inr markup"
    and "deadline_at pw = None"
  shows "\<exists>st'. getFromPlaywright w pw u conf st = Some ((Some markup, None), st')"
proof -
  have goto: "\<exists>s'. goto_steps w pw conf u s = ((markup, None), s')" for s
    using assms(8,9,10) by (auto simp: goto_steps_def Let_def)
  have page: "\<exists>s'. page_steps w pw conf u s = ((markup, None), s')" for s
  proof (cases "Stealth conf")
    case True
    from goto [of "emit PwAddInitScript (emit PwStealthInject (emit PwNewPage s))"]
    obtain s' where "goto_steps w pw conf u
        (emit PwAddInitScript (emit PwStealthInject (emit PwNewPage s))) = ((markup, None), s')"
      by blast
    with True assms(6,7) show ?thesis by (simp add: page_steps_def Let_def)
  next
    case False
    from goto [of "emit PwNewPage s"]
    obtain s' where "goto_steps w pw conf u (emit PwNewPage s) = ((markup, None), s')"
      by blast
    with False assms(6) show ?thesis by (simp add: page_steps_def Let_def)
  qed
  have browser: "\<exists>s'. browser_steps w pw conf u s = ((markup, None), s')" for s
  proof -
    define s1 where "s1 = emit (PwLaunch
        (if Browser conf = Chromium then ''Chromium''
         else if Browser conf = FireFox then ''Firefox'' else ''WebKit'')
        (launch_options w conf)) s"
    from page [of s1] obtain s' where "page_steps w pw conf u s1 = ((markup, None), s')"
      by blast
    with assms(4,5) show ?thesis by (simp add: browser_steps_def Let_def s1_def)
  qed
  have bg: "\<exists>s'. background w pw conf u cx s = Some ((markup, None), s')" for cx s
  proof -
    from browser [of "emit PwRun s"] obtain s' where
      "browser_steps w pw conf u (emit PwRun s) = ((markup, None), s')" by blast
    with assms(2,3) show ?thesis by (simp add: background_def install_step_def)
  qed
  have rc: "\<exists>s'. race w pw u conf s = ((Some markup, None), s', [])" for s
  proof -
    from bg [of "WithTimeout Background (if PwTimeout conf > 0 then PwTimeout conf else timeout)" s]
    obtain s' where "background w pw conf u
        (WithTimeout Background (if PwTimeout conf > 0 then PwTimeout conf else timeout)) s
        = Some ((markup, None), s')" by blast
    with assms(11) show ?thesis by (simp add: race_def Let_def)
  qed
  show ?thesis
  proof (cases "PlaywrightLimiter w")
    case False
    with rc [of st] show ?thesis by (auto simp: getFromPlaywright_def afterwards_def)
  next
    case True
    with assms(1) obtain t where "free_after w InstancePool = Some t" by auto
    moreover from rc [of "emit (Acquire InstancePool) st"] obtain s' where
      "race w pw u conf (emit (Acquire InstancePool) st) = ((Some markup, None), s', [])"
      by blast
    ultimately show ?thesis using True
      by (simp add: getFromPlaywright_def sem_Acquire_ctx)
  qed
qed

text \<open>Whatever step fails, the error a call returns is nil, the deadline's, or the one the
  install step left: the errors of the steps from \<^verbatim>\<open>playwright.Run\<close> on are assigned to
  the variable \<^verbatim>\<open>err\<close> of the function literal and never returned.\<close>

lemma getFromPlaywright_error:
  assumes "getFromPlaywright w pw u conf st = Some ((body, err), st')"
  shows "err = None \<or> err = Some DeadlineExceeded \<or> (Install conf \<and> err = Install_error pw)"
proof -
  have step: "e = None \<or> e = Some DeadlineExceeded \<or> (Install conf \<and> e = Install_error pw)"
    if "install_step w pw conf cx None s = Some (go, e, s')" for cx s go e s'
    using that
    by (auto simp: install_step_def install_locked_def sem_Acquire_def Let_def
        split: if_splits option.splits acquired.splits)
  have bg: "e = None \<or> e = Some DeadlineExceeded \<or> (Install conf \<and> e = Install_error pw)"
    if "background w pw conf u cx s = Some ((content, e), s')" for cx s content e s'
  proof (cases "install_step w pw conf cx None s")
    case None
    with that show ?thesis by (simp add: background_def)
  next
    case (Some res)
    then obtain go e1 s1 where s1: "install_step w pw conf cx None s = Some (go, e1, s1)"
      by (cases res) auto
    with that have "e = e1"
      by (auto simp: background_def split: if_splits option.splits prod.splits)
    with step [OF s1] show ?thesis by simp
  qed
  have rc: "e = None \<or> e = Some DeadlineExceeded \<or> (Install conf \<and> e = Install_error pw)"
    if "race w pw u conf s = ((b, e), s', late)" for s b e s' late
    using that bg
    by (auto simp: race_def Let_def split: option.splits if_splits prod.splits)
  from assms show ?thesis
    using rc
    by (auto simp: getFromPlaywright_def sem_Acquire_ctx
        split: if_splits option.splits prod.splits)
qed

text \<open>
  Claim C3 at a failing input. The configuration asks for Chromium and no installation,
  and one step fails: \<^verbatim>\<open>playwright.Run\<close> in the first and third run, \<^verbatim>\<open>page.Goto\<close> in
  the second. \<^verbatim>\<open>getFromPlaywright\<close>, and its variant in
  \<^verbatim>\<open>pkg/connectors/playwright.go\<close>, return the empty content and a nil error.
\<close>

theorem getFromPlaywright_failed_step_returns_nil_error:
  "getFromPlaywright example_world
     (example_playwright\<lparr>Run_error := Some (Failure ''could not start driver'')\<rparr>)
     ''http://api.test/page'' (example_pw_cfg\<lparr>Install := False\<rparr>) example_state =
   Some ((Some '''', None),
     example_state\<lparr>trace := [PwRun, Cancel (WithTimeout Background 60)]\<rparr>)
   \<and> getFromPlaywright example_world
       (example_playwright\<lparr>Goto_error := (\<lambda>u. Some (Failure ''net::ERR_NAME_NOT_RESOLVED''))\<rparr>)
       ''http://api.test/page'' (example_pw_cfg\<lparr>Install := False\<rparr>) example_state =
     Some ((Some '''', None),
       example_state\<lparr>trace :=
         [PwRun, PwLaunch ''Chromium'' None, PwNewPage,
          PwGoto ''http://api.test/page'' 60000 None, PwPageClose, PwBrowserClose, PwStop,
          Cancel (WithTimeout Background 60)]\<rparr>)
   \<and> getFromPlaywright_go example_world
       (example_playwright\<lparr>Run_error := Some (Failure ''could not start driver'')\<rparr>)
       ''http://api.test/page'' (example_pw_cfg\<lparr>Install := False\<rparr>) example_state =
     Some ((Some '''', None),
       example_state\<lparr>trace := [PwRun, Cancel (WithTimeout Background 60)]\<rparr>)"
  by (simp add: playwright_defs playwright_example_defs getFromPlaywright_go_def
      background_go_def page_steps_go_def)

subsection \<open>The install section\<close>

lemma install_run_Nil: "install_run outcome flag [] = install_begin flag"
  by (simp add: install_run_def)

lemma install_run_snoc:
  "install_run outcome flag (schedule @ [t]) =
     install_turn outcome (install_run outcome flag schedule) t"
  by (simp add: install_run_def)

lemma holder_after_snoc:
  "holder_after h (l @ [e]) = holder_after (holder_after h l) [e]"
  by (induction h l rule: holder_after.induct) simp_all

lemma lock_discipline_snoc:
  "lock_discipline h (l @ [e]) =
     (lock_discipline h l \<and> lock_discipline (holder_after h l) [e])"
  by (induction h l rule: lock_discipline.induct) auto

lemma thread_snoc:
  "thread c (l @ [(d, a)]) = (if d = c then thread c l @ [a] else thread c l)"
  by (simp add: thread_def)

lemma successes_snoc:
  "successes (l @ [(d, a)]) = (if a = InstallRun None then successes l + 1 else successes l)"
  by (simp add: successes_def)

text \<open>
  One turn keeps the lock in order: the history obeys the discipline of the lock, the
  semaphore counts the caller that holds it, the callers between \<^verbatim>\<open>Acquire\<close> and
  \<^verbatim>\<open>Release\<close> are that caller alone, and while a caller is about to install or to store
  the flag is not set.
\<close>

lemma install_turn_lock:
  assumes "lock_discipline None (history s)"
    and "taken s = (if holder_after None (history s) = None then 0 else 1)"
    and "\<forall>c. (at s c \<noteq> AtAcquire \<and> (\<forall>err. at s c \<noteq> Left err))
            = (holder_after None (history s) = Some c)"
    and "\<forall>c. at s c = AtInstall \<or> at s c = AtStore \<longrightarrow> \<not> installed s"
  shows "lock_discipline None (history (install_turn outcome s t))
    \<and> taken (install_turn outcome s t)
        = (if holder_after None (history (install_turn outcome s t)) = None then 0 else 1)
    \<and> (\<forall>c. (at (install_turn outcome s t) c \<noteq> AtAcquire
              \<and> (\<forall>err. at (install_turn outcome s t) c \<noteq> Left err))
            = (holder_after None (history (install_turn outcome s t)) = Some c))
    \<and> (\<forall>c. at (install_turn outcome s t) c = AtInstall
              \<or> at (install_turn outcome s t) c = AtStore
            \<longrightarrow> \<not> installed (install_turn outcome s t))"
proof (cases t)
  case (Expires c)
  show ?thesis
  proof (cases "at s c")
    case AtAcquire
    with assms(3) have "holder_after None (history s) \<noteq> Some c" by auto
    with assms AtAcquire Expires show ?thesis
      by (auto simp: lock_discipline_snoc holder_after_snoc)
  qed (use assms Expires in simp_all)
next
  case (Runs c)
  from assms(3) have mine: "holder_after None (history s) = Some c"
    if "at s c \<noteq> AtAcquire" and "\<forall>err. at s c \<noteq> Left err"
    using that by blast
  from assms(3) have others: "at s d = AtAcquire \<or> (\<exists>err. at s d = Left err)"
    if "holder_after None (history s) \<noteq> Some d" for d
    using that by blast
  show ?thesis
  proof (cases "at s c")
    case AtAcquire
    show ?thesis
    proof (cases "taken s < 1")
      case True
      with assms(2) have free: "holder_after None (history s) = None"
        by (auto split: if_splits)
      with assms AtAcquire Runs True show ?thesis
        by (auto simp: lock_discipline_snoc holder_after_snoc)
    next
      case False
      with assms AtAcquire Runs show ?thesis by simp
    qed
  next
    case AtLoad
    with mine have "holder_after None (history s) = Some c" by simp
    with assms AtLoad Runs show ?thesis
      by (auto simp: lock_discipline_snoc holder_after_snoc)
  next
    case AtInstall
    with mine have "holder_after None (history s) = Some c" by simp
    with assms AtInstall Runs show ?thesis
      by (auto simp: lock_discipline_snoc holder_after_snoc split: option.splits)
  next
    case AtStore
    with mine have h: "holder_after None (history s) = Some c" by simp
    have "at s d \<noteq> AtInstall \<and> at s d \<noteq> AtStore" if "d \<noteq> c" for d
      using others [of d] h that by auto
    with assms h AtStore Runs show ?thesis
      by (auto simp: lock_discipline_snoc holder_after_snoc)
  next
    case (AtRelease err)
    with mine have h: "holder_after None (history s) = Some c" by simp
    have "at s d = AtAcquire \<or> (\<exists>e. at s d = Left e)" if "d \<noteq> c" for d
      using others [of d] h that by auto
    with assms h AtRelease Runs show ?thesis
      by (auto simp: lock_discipline_snoc holder_after_snoc)
  next
    case (Left err)
    with assms Runs show ?thesis by simp
  qed
qed

lemma install_run_lock:
  "lock_discipline None (history (install_run outcome flag schedule))
    \<and> taken (install_run outcome flag schedule)
        = (if holder_after None (history (install_run outcome flag schedule)) = None
           then 0 else 1)
    \<and> (\<forall>c. (at (install_run outcome flag schedule) c \<noteq> AtAcquire
              \<and> (\<forall>err. at (install_run outcome flag schedule) c \<noteq> Left err))
            = (holder_after None (history (install_run outcome flag schedule)) = Some c))
    \<and> (\<forall>c. at (install_run outcome flag schedule) c = AtInstall
              \<or> at (install_run outcome flag schedule) c = AtStore
            \<longrightarrow> \<not> installed (install_run outcome flag schedule))"
proof (induction schedule rule: rev_induct)
  case Nil
  show ?case by (simp add: install_run_Nil install_begin_def)
next
  case (snoc t schedule)
  then show ?case
    unfolding install_run_snoc by (intro install_turn_lock) blast+
qed

lemma store_elsewhere:
  assumes "f c \<noteq> AtStore" and "pc \<noteq> AtStore"
  shows "(\<exists>d. (f(c := pc)) d = AtStore) = (\<exists>d. f d = AtStore)"
proof
  assume "\<exists>d. (f(c := pc)) d = AtStore"
  then obtain d where d: "(f(c := pc)) d = AtStore" ..
  with assms(2) have "d \<noteq> c" by auto
  with d have "f d = AtStore" by simp
  then show "\<exists>d. f d = AtStore" ..
next
  assume "\<exists>d. f d = AtStore"
  then obtain d where d: "f d = AtStore" ..
  with assms(1) have "d \<noteq> c" by auto
  with d have "(f(c := pc)) d = AtStore" by simp
  then show "\<exists>d. (f(c := pc)) d = AtStore" ..
qed

text \<open>The installations that succeeded: one when the flag has been set by a caller or a
  caller is about to set it, none otherwise.\<close>

lemma install_turn_once:
  assumes "\<forall>c. (at s c \<noteq> AtAcquire \<and> (\<forall>err. at s c \<noteq> Left err))
            = (holder_after None (history s) = Some c)"
    and "\<forall>c. at s c = AtInstall \<or> at s c = AtStore \<longrightarrow> \<not> installed s"
    and "successes (history s) =
           (if (installed s \<and> \<not> flag) \<or> (\<exists>c. at s c = AtStore) then 1 else 0)"
    and "flag \<longrightarrow> installed s"
  shows "successes (history (install_turn outcome s t)) =
           (if (installed (install_turn outcome s t) \<and> \<not> flag)
               \<or> (\<exists>c. at (install_turn outcome s t) c = AtStore) then 1 else 0)
    \<and> (flag \<longrightarrow> installed (install_turn outcome s t))"
proof (cases t)
  case (Expires c)
  show ?thesis
  proof (cases "at s c")
    case AtAcquire
    then have "(\<exists>d. ((at s)(c := Left (Some DeadlineExceeded))) d = AtStore)
        = (\<exists>d. at s d = AtStore)"
      by (intro store_elsewhere) simp_all
    with assms(3,4) AtAcquire Expires show ?thesis
      by (simp add: successes_snoc)
  qed (use assms(3,4) Expires in simp_all)
next
  case (Runs c)
  have alone: "d = c" if "at s c \<noteq> AtAcquire" and "\<forall>err. at s c \<noteq> Left err"
    and "at s d \<noteq> AtAcquire" and "\<forall>err. at s d \<noteq> Left err" for d
  proof -
    from assms(1) that(1,2) have "holder_after None (history s) = Some c" by blast
    moreover from assms(1) that(3,4) have "holder_after None (history s) = Some d" by blast
    ultimately show ?thesis by simp
  qed
  show ?thesis
  proof (cases "at s c")
    case AtAcquire
    show ?thesis
    proof (cases "taken s < 1")
      case True
      from AtAcquire have "(\<exists>d. ((at s)(c := AtLoad)) d = AtStore) = (\<exists>d. at s d = AtStore)"
        by (intro store_elsewhere) simp_all
      with assms(3,4) AtAcquire Runs True show ?thesis
        by (simp add: successes_snoc)
    next
      case False
      with assms(3,4) AtAcquire Runs show ?thesis by simp
    qed
  next
    case AtLoad
    have none: "at s d \<noteq> AtStore" for d
      using alone [of d] AtLoad by auto
    then have "\<not> (\<exists>d. ((at s)(c := pc)) d = AtStore)" if "pc \<noteq> AtStore" for pc
      using that by simp
    from this [of "AtRelease None"] this [of AtInstall]
    have "\<not> (\<exists>d. ((at s)(c := AtRelease None)) d = AtStore)"
      and "\<not> (\<exists>d. ((at s)(c := AtInstall)) d = AtStore)" by simp_all
    with assms(3,4) AtLoad Runs none show ?thesis
      by (simp add: successes_snoc)
  next
    case AtInstall
    have none: "at s d \<noteq> AtStore" for d
      using alone [of d] AtInstall by auto
    from assms(2) AtInstall have unset: "\<not> installed s" by blast
    show ?thesis
    proof (cases "outcome c")
      case None
      have "\<exists>d. ((at s)(c := AtStore)) d = AtStore" by auto
      with assms(3,4) AtInstall Runs None unset none show ?thesis
        by (simp add: successes_snoc)
    next
      case (Some e)
      have "\<not> (\<exists>d. ((at s)(c := AtRelease (Some e))) d = AtStore)"
        using none by simp
      with assms(3,4) AtInstall Runs Some unset none show ?thesis
        by (simp add: successes_snoc)
    qed
  next
    case AtStore
    from assms(2) AtStore have unset: "\<not> installed s" by blast
    with assms(4) have "\<not> flag" by blast
    moreover have "\<exists>d. at s d = AtStore" using AtStore by blast
    ultimately show ?thesis
      using assms(3,4) AtStore Runs by (simp add: successes_snoc)
  next
    case (AtRelease err)
    have none: "at s d \<noteq> AtStore" for d
      using alone [of d] AtRelease by auto
    then have "\<not> (\<exists>d. ((at s)(c := Left err)) d = AtStore)" by simp
    with assms(3,4) AtRelease Runs none show ?thesis
      by (simp add: successes_snoc)
  next
    case (Left err)
    with assms(3,4) Runs show ?thesis by simp
  qed
qed

lemma install_run_once:
  "successes (history (install_run outcome flag schedule)) =
     (if (installed (install_run outcome flag schedule) \<and> \<not> flag)
         \<or> (\<exists>c. at (install_run outcome flag schedule) c = AtStore) then 1 else 0)
   \<and> (flag \<longrightarrow> installed (install_run outcome flag schedule))"
proof (induction schedule rule: rev_induct)
  case Nil
  show ?case by (simp add: install_run_Nil install_begin_def successes_def)
next
  case (snoc t schedule)
  from install_run_lock [of outcome flag schedule]
  have "\<forall>c. (at (install_run outcome flag schedule) c \<noteq> AtAcquire
              \<and> (\<forall>err. at (install_run outcome flag schedule) c \<noteq> Left err))
            = (holder_after None (history (install_run outcome flag schedule)) = Some c)"
    and "\<forall>c. at (install_run outcome flag schedule) c = AtInstall
              \<or> at (install_run outcome flag schedule) c = AtStore
            \<longrightarrow> \<not> installed (install_run outcome flag schedule)"
    by blast+
  with snoc show ?case
    unfolding install_run_snoc by (intro install_turn_once) blast+
qed

text \<open>When the process starts with the flag set, no caller runs the installation.\<close>

lemma install_run_installed:
  assumes flag
  shows "installed (install_run outcome flag schedule)
    \<and> (\<forall>c. at (install_run outcome flag schedule) c \<noteq> AtInstall
           \<and> at (install_run outcome flag schedule) c \<noteq> AtStore)
    \<and> (\<forall>c res. (c, InstallRun res) \<notin> set (history (install_run outcome flag schedule)))"
proof (induction schedule rule: rev_induct)
  case Nil
  from assms show ?case by (simp add: install_run_Nil install_begin_def)
next
  case (snoc t schedule)
  define s where "s = install_run outcome flag schedule"
  from snoc have inv: "installed s" "\<And>c. at s c \<noteq> AtInstall" "\<And>c. at s c \<noteq> AtStore"
    "\<And>c res. (c, InstallRun res) \<notin> set (history s)"
    unfolding s_def by blast+
  show ?case
    unfolding install_run_snoc s_def [symmetric]
  proof (cases t)
    case (Expires c)
    with inv show "installed (install_turn outcome s t)
      \<and> (\<forall>c. at (install_turn outcome s t) c \<noteq> AtInstall
             \<and> at (install_turn outcome s t) c \<noteq> AtStore)
      \<and> (\<forall>c res. (c, InstallRun res) \<notin> set (history (install_turn outcome s t)))"
      by (cases "at s c") auto
  next
    case (Runs c)
    with inv show "installed (install_turn outcome s t)
      \<and> (\<forall>c. at (install_turn outcome s t) c \<noteq> AtInstall
             \<and> at (install_turn outcome s t) c \<noteq> AtStore)
      \<and> (\<forall>c res. (c, InstallRun res) \<notin> set (history (install_turn outcome s t)))"
      by (cases "at s c") auto
  qed
qed

text \<open>The flag is set when the process started with it set or a caller has stored it.\<close>

lemma install_run_flag:
  "installed (install_run outcome flag schedule) =
     (flag \<or> (\<exists>c. (c, FlagStored) \<in> set (history (install_run outcome flag schedule))))"
proof (induction schedule rule: rev_induct)
  case Nil
  show ?case by (simp add: install_run_Nil install_begin_def)
next
  case (snoc t schedule)
  define s where "s = install_run outcome flag schedule"
  from snoc have inv: "installed s = (flag \<or> (\<exists>c. (c, FlagStored) \<in> set (history s)))"
    unfolding s_def .
  show ?case
    unfolding install_run_snoc s_def [symmetric]
  proof (cases t)
    case (Expires c)
    with inv show "installed (install_turn outcome s t) =
        (flag \<or> (\<exists>c. (c, FlagStored) \<in> set (history (install_turn outcome s t))))"
      by (cases "at s c") auto
  next
    case (Runs c)
    with inv show "installed (install_turn outcome s t) =
        (flag \<or> (\<exists>c. (c, FlagStored) \<in> set (history (install_turn outcome s t))))"
      by (cases "at s c") auto
  qed
qed

text \<open>What each caller has done fits the point it is at.\<close>

lemma install_turn_fits:
  assumes "fits outcome c (at s c) (thread c (history s))"
  shows "fits outcome c (at (install_turn outcome s t) c)
    (thread c (history (install_turn outcome s t)))"
proof (cases t)
  case (Expires d)
  show ?thesis
  proof (cases "d = c")
    case True
    with assms Expires show ?thesis
      by (cases "at s c") (auto simp: thread_snoc)
  next
    case False
    with assms Expires show ?thesis
      by (cases "at s d") (auto simp: thread_snoc)
  qed
next
  case (Runs d)
  show ?thesis
  proof (cases "d = c")
    case True
    with assms Runs show ?thesis
      by (cases "at s c") (auto simp: thread_snoc split: option.splits)
  next
    case False
    with assms Runs show ?thesis
      by (cases "at s d") (auto simp: thread_snoc)
  qed
qed

lemma install_run_fits:
  "fits outcome c (at (install_run outcome flag schedule) c)
     (thread c (history (install_run outcome flag schedule)))"
proof (induction schedule rule: rev_induct)
  case Nil
  show ?case by (simp add: install_run_Nil install_begin_def thread_def)
next
  case (snoc t schedule)
  then show ?case
    unfolding install_run_snoc by (rule install_turn_fits)
qed

text \<open>
  Claim C2, as the code has it. The installation is guarded lock-then-check. Whatever the
  callers that ask for the installation, whatever the installation returns to each and
  however their statements interleave:
  \<^item> the history obeys the discipline of the lock: it is acquired only when no caller holds
    it, and the flag is loaded, the installation run and the flag stored only by the caller
    that holds it;
  \<^item> at most one installation succeeds, and none is run when the process starts with the
    flag set;
  \<^item> the flag is set exactly when the process started with it set or a caller has stored
    it;
  \<^item> a caller that has left the block was refused the lock by its deadline, or acquired
    the lock first, then loaded the flag, whether it was set or not, and released the lock:
    at once when the flag was set, after a failed installation, whose error it keeps, or
    after a successful installation and the store of the flag.
\<close>

theorem install_lock_then_check:
  "lock_discipline None (history (install_run outcome flag schedule))
   \<and> successes (history (install_run outcome flag schedule)) \<le> 1
   \<and> (flag \<longrightarrow> (\<forall>c res. (c, InstallRun res)
                     \<notin> set (history (install_run outcome flag schedule))))
   \<and> installed (install_run outcome flag schedule) =
       (flag \<or> (\<exists>c. (c, FlagStored) \<in> set (history (install_run outcome flag schedule))))
   \<and> (\<forall>c err. at (install_run outcome flag schedule) c = Left err \<longrightarrow>
         (thread c (history (install_run outcome flag schedule)) = [LockRefused]
            \<and> err = Some DeadlineExceeded)
         \<or> (thread c (history (install_run outcome flag schedule))
               = [LockAcquired, FlagLoaded True, LockReleased]
            \<and> err = None)
         \<or> (thread c (history (install_run outcome flag schedule))
               = [LockAcquired, FlagLoaded False, InstallRun err, LockReleased]
            \<and> err \<noteq> None \<and> err = outcome c)
         \<or> (thread c (history (install_run outcome flag schedule))
               = [LockAcquired, FlagLoaded False, InstallRun None, FlagStored, LockReleased]
            \<and> err = None \<and> outcome c = None))"
proof (intro conjI allI impI)
  show "lock_discipline None (history (install_run outcome flag schedule))"
    using install_run_lock [of outcome flag schedule] by blast
  show "successes (history (install_run outcome flag schedule)) \<le> 1"
    using install_run_once [of outcome flag schedule] by (simp split: if_splits)
  show "installed (install_run outcome flag schedule) =
       (flag \<or> (\<exists>c. (c, FlagStored) \<in> set (history (install_run outcome flag schedule))))"
    by (rule install_run_flag)
next
  fix c res
  assume flag
  from install_run_installed [OF this, of outcome schedule]
  show "(c, InstallRun res) \<notin> set (history (install_run outcome flag schedule))"
    by blast
next
  fix c err
  assume "at (install_run outcome flag schedule) c = Left err"
  with install_run_fits [of outcome c flag schedule]
  show "(thread c (history (install_run outcome flag schedule)) = [LockRefused]
            \<and> err = Some DeadlineExceeded)
         \<or> (thread c (history (install_run outcome flag schedule))
               = [LockAcquired, FlagLoaded True, LockReleased]
            \<and> err = None)
         \<or> (thread c (history (install_run outcome flag schedule))
               = [LockAcquired, FlagLoaded False, InstallRun err, LockReleased]
            \<and> err \<noteq> None \<and> err = outcome c)
         \<or> (thread c (history (install_run outcome flag schedule))
               = [LockAcquired, FlagLoaded False, InstallRun None, FlagStored, LockReleased]
            \<and> err = None \<and> outcome c = None)"
    by simp
qed

lemmas install_defs =
  install_run_def install_begin_def example_turns_def example_history_def

text \<open>
  A caller alone, the flag already set, acquires the install lock all the same, in the
  install section and in \<^verbatim>\<open>getFromPlaywright\<close> as a whole. And when the installation
  fails, the flag stays unset and the next caller runs it again.
\<close>

theorem install_lock_taken_when_installed:
  "history (install_run (\<lambda>c. None) True [Runs 1, Runs 1, Runs 1]) =
     [(1, LockAcquired), (1, FlagLoaded True), (1, LockReleased)]
   \<and> getFromPlaywright example_world example_playwright ''http://api.test/page'' example_pw_cfg
       (example_state\<lparr>installedPlaywright := True\<rparr>) =
     Some ((Some ''<html></html>'', None),
       example_state\<lparr>installedPlaywright := True,
         trace := [Acquire InstallLock, Release InstallLock] @ example_browse\<rparr>)
   \<and> history (install_run (\<lambda>c. Some (Failure ''could not install driver'')) False
       [Runs 1, Runs 1, Runs 1, Runs 1, Runs 2, Runs 2, Runs 2, Runs 2]) =
     [(1, LockAcquired), (1, FlagLoaded False),
      (1, InstallRun (Some (Failure ''could not install driver''))), (1, LockReleased),
      (2, LockAcquired), (2, FlagLoaded False),
      (2, InstallRun (Some (Failure ''could not install driver''))), (2, LockReleased)]"
  by (simp add: install_run_def install_begin_def playwright_defs playwright_example_defs)

lemma example_turns_run:
  "history (install_run (\<lambda>c. None) False example_turns) = example_history"
  "installed (install_run (\<lambda>c. None) False example_turns)"
  "at (install_run (\<lambda>c. None) False example_turns) 1 = Left None"
  "at (install_run (\<lambda>c. None) False example_turns) 2 = Left None"
  "at (install_run (\<lambda>c. None) False example_turns) 3 = Left (Some DeadlineExceeded)"
  by (simp_all add: install_defs)

theorem install_lock_then_check_witness:
  "history (install_run (\<lambda>c. None) False example_turns) = example_history
   \<and> lock_discipline None example_history
   \<and> successes example_history = 1
   \<and> installed (install_run (\<lambda>c. None) False example_turns)
   \<and> (1, FlagStored) \<in> set example_history
   \<and> at (install_run (\<lambda>c. None) False example_turns) 1 = Left None
   \<and> thread 1 example_history =
       [LockAcquired, FlagLoaded False, InstallRun None, FlagStored, LockReleased]
   \<and> at (install_run (\<lambda>c. None) False example_turns) 2 = Left None
   \<and> thread 2 example_history = [LockAcquired, FlagLoaded True, LockReleased]
   \<and> at (install_run (\<lambda>c. None) False example_turns) 3 = Left (Some DeadlineExceeded)
   \<and> thread 3 example_history = [LockRefused]
   \<and> history (install_run (\<lambda>c. None) True [Runs 1, Runs 1, Runs 1]) =
       [(1, LockAcquired), (1, FlagLoaded True), (1, LockReleased)]
   \<and> (1, InstallRun None)
       \<notin> set (history (install_run (\<lambda>c. None) True [Runs 1, Runs 1, Runs 1]))"
proof -
  note run = install_lock_then_check [of "\<lambda>c. None" False example_turns,
      unfolded example_turns_run]
  from run have discipline: "lock_discipline None example_history" by blast
  have count: "successes example_history = 1"
    by (simp add: successes_def example_history_def)
  have threads: "thread 1 example_history =
       [LockAcquired, FlagLoaded False, InstallRun None, FlagStored, LockReleased]"
    "thread 2 example_history = [LockAcquired, FlagLoaded True, LockReleased]"
    "thread 3 example_history = [LockRefused]"
    by (simp_all add: thread_def example_history_def)
  have stored: "(1, FlagStored) \<in> set example_history"
    by (simp add: example_history_def)
  have alone: "history (install_run (\<lambda>c. None) True [Runs 1, Runs 1, Runs 1]) =
       [(1, LockAcquired), (1, FlagLoaded True), (1, LockReleased)]"
    by (simp add: install_run_def install_begin_def)
  from install_lock_then_check [of "\<lambda>c. None" True "[Runs 1, Runs 1, Runs 1]",
      THEN conjunct2, THEN conjunct2, THEN conjunct1]
  have none: "(1, InstallRun None)
       \<notin> set (history (install_run (\<lambda>c. None) True [Runs 1, Runs 1, Runs 1]))"
    by blast
  from discipline count threads stored alone none example_turns_run show ?thesis
    by simp
qed

section \<open>Properties of the reference registry\<close>

lemma resolve_run_snoc:
  "resolve_run (schedule @ [e]) = resolve_step (resolve_run schedule) e"
  by (simp add: resolve_run_def)

lemma resolve_run_Nil:
  "reference (resolve_run []) name = Unresolved" "executed (resolve_run []) = []"
  "observed (resolve_run []) = []"
  by (simp_all add: resolve_run_def SetReference_def)

lemma executed_once:
  "count_list (executed (resolve_run schedule)) name =
     (if reference (resolve_run schedule) name = Unresolved then 0 else 1)"
proof (induction schedule rule: rev_induct)
  case Nil
  show ?case by (simp add: resolve_run_Nil)
next
  case (snoc e schedule)
  show ?case
  proof (cases e)
    case (Enter c n)
    with snoc.IH show ?thesis
      by (cases "reference (resolve_run schedule) n")
        (auto simp: resolve_run_snoc split: if_splits)
  next
    case (Complete n out)
    with snoc.IH show ?thesis
      by (cases "reference (resolve_run schedule) n")
        (auto simp: resolve_run_snoc split: if_splits)
  next
    case (Return c n)
    with snoc.IH show ?thesis
      by (cases "reference (resolve_run schedule) n")
        (auto simp: resolve_run_snoc split: if_splits)
  qed
qed

lemma entered_iff:
  "(reference (resolve_run schedule) name \<noteq> Unresolved) = (\<exists>c. Enter c name \<in> set schedule)"
proof (induction schedule rule: rev_induct)
  case Nil
  show ?case by (simp add: resolve_run_Nil)
next
  case (snoc e schedule)
  show ?case
  proof (cases e)
    case (Enter c n)
    with snoc.IH show ?thesis
      by (cases "reference (resolve_run schedule) n")
        (auto simp: resolve_run_snoc split: if_splits)
  next
    case (Complete n out)
    with snoc.IH show ?thesis
      by (cases "reference (resolve_run schedule) n")
        (auto simp: resolve_run_snoc split: if_splits)
  next
    case (Return c n)
    with snoc.IH show ?thesis
      by (cases "reference (resolve_run schedule) n")
        (auto simp: resolve_run_snoc split: if_splits)
  qed
qed

lemma resolved_stays:
  "reference r name = Resolved out \<Longrightarrow>
     reference (foldl resolve_step r later) name = Resolved out"
proof (induction later arbitrary: r)
  case Nil
  then show ?case by simp
next
  case (Cons e later)
  from Cons.prems have "reference (resolve_step r e) name = Resolved out"
  proof (cases e)
    case (Enter c n)
    with Cons.prems show ?thesis
      by (cases "reference r n") (auto split: if_splits)
  next
    case (Complete n out')
    with Cons.prems show ?thesis
      by (cases "reference r n") (auto split: if_splits)
  next
    case (Return c n)
    with Cons.prems show ?thesis
      by (cases "reference r n") (auto split: if_splits)
  qed
  from Cons.IH [OF this] show ?case by simp
qed

lemma observed_resolved:
  "(c, name, out) \<in> set (observed (resolve_run schedule)) \<Longrightarrow>
     reference (resolve_run schedule) name = Resolved out"
proof (induction schedule rule: rev_induct)
  case Nil
  then show ?case by (simp add: resolve_run_Nil)
next
  case (snoc e schedule)
  show ?case
  proof (cases "(c, name, out) \<in> set (observed (resolve_run schedule))")
    case True
    from snoc.IH [OF this]
    have "reference (foldl resolve_step (resolve_run schedule) [e]) name = Resolved out"
      by (rule resolved_stays)
    then show ?thesis by (simp add: resolve_run_snoc)
  next
    case False
    with snoc.prems show ?thesis
      by (cases e; cases "reference (resolve_run schedule) (case e of Enter c n \<Rightarrow> n
            | Complete n out \<Rightarrow> n | Return c n \<Rightarrow> n)")
        (auto simp: resolve_run_snoc split: if_splits)
  qed
qed

text \<open>
  Claim C1, on the registry as the spec describes it (its code is not among the sources).
  Whatever the schedule of the callers of \<^verbatim>\<open>resolve\<close>, the resolver of a name is executed
  once if some caller entered for the name and never otherwise; every outcome a caller has
  observed for the name is the outcome stored for it, so any two callers observe the same;
  and a stored outcome stays whatever happens later.
\<close>

theorem resolve_single_flight:
  "count_list (executed (resolve_run schedule)) name =
     (if \<exists>c. Enter c name \<in> set schedule then 1 else 0)
   \<and> (\<forall>c out. (c, name, out) \<in> set (observed (resolve_run schedule))
         \<longrightarrow> reference (resolve_run schedule) name = Resolved out)
   \<and> (\<forall>c out c' out'. (c, name, out) \<in> set (observed (resolve_run schedule))
         \<and> (c', name, out') \<in> set (observed (resolve_run schedule)) \<longrightarrow> out = out')
   \<and> (\<forall>out later. reference (resolve_run schedule) name = Resolved out
         \<longrightarrow> reference (resolve_run (schedule @ later)) name = Resolved out)"
proof (intro conjI allI impI)
  show "count_list (executed (resolve_run schedule)) name =
     (if \<exists>c. Enter c name \<in> set schedule then 1 else 0)"
    using executed_once [of schedule name] entered_iff [of schedule name] by auto
next
  fix c out
  assume "(c, name, out) \<in> set (observed (resolve_run schedule))"
  then show "reference (resolve_run schedule) name = Resolved out"
    by (rule observed_resolved)
next
  fix c out c' out'
  assume "(c, name, out) \<in> set (observed (resolve_run schedule))
    \<and> (c', name, out') \<in> set (observed (resolve_run schedule))"
  then have "reference (resolve_run schedule) name = Resolved out"
    and "reference (resolve_run schedule) name = Resolved out'"
    using observed_resolved by blast+
  then show "out = out'" by simp
next
  fix out later
  assume "reference (resolve_run schedule) name = Resolved out"
  then have "reference (foldl resolve_step (resolve_run schedule) later) name = Resolved out"
    by (rule resolved_stays)
  then show "reference (resolve_run (schedule @ later)) name = Resolved out"
    by (simp add: resolve_run_def)
qed

lemma example_schedule_run:
  "executed (resolve_run example_schedule) = [''X'']"
  "observed (resolve_run example_schedule) =
     [(1, ''X'', Inr Null), (2, ''X'', Inr Null), (3, ''X'', Inr Null)]"
  "reference (resolve_run example_schedule) ''X'' = Resolved (Inr Null)"
  by (simp_all add: resolve_run_def example_schedule_def SetReference_def)

theorem resolve_single_flight_witness:
  "Enter 1 ''X'' \<in> set example_schedule
   \<and> count_list (executed (resolve_run example_schedule)) ''X'' = 1
   \<and> (1, ''X'', Inr Null) \<in> set (observed (resolve_run example_schedule))
   \<and> (3, ''X'', Inr Null) \<in> set (observed (resolve_run example_schedule))
   \<and> reference (resolve_run example_schedule) ''X'' = Resolved (Inr Null)
   \<and> reference (resolve_run (example_schedule @ [Complete ''X'' (Inl errEmpty), Enter 4 ''X'']))
       ''X'' = Resolved (Inr Null)"
proof -
  have entered: "Enter 1 ''X'' \<in> set example_schedule"
    by (simp add: example_schedule_def)
  then have "\<exists>c. Enter c ''X'' \<in> set example_schedule" by blast
  with resolve_single_flight [of example_schedule "''X''"] entered example_schedule_run
  show ?thesis by simp
qed

end
